theory Spec2Isabelle
  imports Complex_Main "HOL-Library.Word" "HOL-Library.Log_Nat"
begin

section \<open>Draggable text layout (DraggableLetters)\<close>

text \<open>
  The component of \<^verbatim>\<open>draggableLettersRaw.ts\<close>: a layout effect that turns measured
  glyph widths into absolute positions, and a binding effect that registers every visible
  glyph with the drag library.

  Numbers: a JavaScript \<^verbatim>\<open>number\<close> is a double. The layout effect is given twice:
  \<open>layoutEffect\<close> computes with exact rationals, and \<open>layoutEffect64\<close> rounds the result
  of every operation to the nearest double, as the program does. The DOM reports
  \<^verbatim>\<open>offsetWidth\<close> and \<^verbatim>\<open>offsetHeight\<close> as integers, so with an integral
  \<^verbatim>\<open>spacing\<close> every value computed is a multiple of one half, nothing is rounded and
  the two agree (\<open>layoutEffect64_exact\<close>).

  Strings: \<^verbatim>\<open>text.split("")\<close> yields the UTF-16 code units of the string and
  \<^verbatim>\<open>text.length\<close> counts them, so a string is a list of 16-bit words.
\<close>

type_synonym number = rat
type_synonym codeunit = "16 word"
type_synonym jsstring = "codeunit list"

text \<open>\<^verbatim>\<open>type LetterData = { char: string; top: number; left: number }\<close>\<close>

record LetterData =
  char :: codeunit
  top' :: number
  left :: number

text \<open>What the effects read of an \<^verbatim>\<open>HTMLDivElement\<close>.\<close>

record HTMLDivElement =
  offsetWidth :: number
  offsetHeight :: number

text \<open>Reading an array at an index: \<^verbatim>\<open>undefined\<close> (\<open>None\<close>) out of range.\<close>

definition elemAt :: "'a list \<Rightarrow> nat \<Rightarrow> 'a option" where
  "elemAt xs i = (if i < length xs then Some (xs ! i) else None)"

text \<open>The operator \<^verbatim>\<open>??\<close>.\<close>

definition nullish :: "'a option \<Rightarrow> 'a \<Rightarrow> 'a" where
  "nullish v d = (case v of None \<Rightarrow> d | Some x \<Rightarrow> x)"

text \<open>
  \<^verbatim>\<open>letterRefs.current[i]?.offsetWidth ?? 0\<close>: the entry may be missing
  (\<^verbatim>\<open>undefined\<close>) or \<^verbatim>\<open>null\<close>; both give 0.
\<close>

definition refWidth :: "HTMLDivElement option list \<Rightarrow> nat \<Rightarrow> number" where
  "refWidth letterRefs i =
     nullish (case elemAt letterRefs i of
                None \<Rightarrow> None
              | Some None \<Rightarrow> None
              | Some (Some el) \<Rightarrow> Some (offsetWidth el)) 0"

text \<open>\<^verbatim>\<open>text.split("").map((_, i) => letterRefs.current[i]?.offsetWidth ?? 0)\<close>\<close>

definition measuredWidths :: "jsstring \<Rightarrow> HTMLDivElement option list \<Rightarrow> number list" where
  "measuredWidths text letterRefs = map (\<lambda>i. refWidth letterRefs i) [0..<length text]"

text \<open>\<^verbatim>\<open>widths.reduce((sum, w) => sum + w, 0) + spacing * (text.length - 1)\<close>\<close>

definition totalWidth :: "number list \<Rightarrow> number \<Rightarrow> jsstring \<Rightarrow> number" where
  "totalWidth widths spacing text =
     foldl (\<lambda>sum w. sum + w) 0 widths + spacing * (of_int (int (length text) - 1))"

text \<open>
  The \<^verbatim>\<open>forEach\<close> loop of the layout effect. The loop state is the array
  \<^verbatim>\<open>positions\<close> and the variable \<^verbatim>\<open>currentLeft\<close>; \<open>i\<close> is the index passed to the
  callback.
\<close>

fun pushLetters ::
  "jsstring \<Rightarrow> nat \<Rightarrow> number list \<Rightarrow> number \<Rightarrow> number \<Rightarrow>
     LetterData list \<times> number \<Rightarrow> LetterData list \<times> number" where
  "pushLetters [] i widths spacing tp st = st"
| "pushLetters (c # cs) i widths spacing tp (positions, currentLeft) =
     pushLetters cs (Suc i) widths spacing tp
       (positions @ [\<lparr>char = c, top' = tp, left = currentLeft\<rparr>],
        currentLeft + (nullish (elemAt widths i) 0 + spacing))"

text \<open>
  The layout effect. \<open>None\<close> is the early return (no call of \<^verbatim>\<open>setLetters\<close>);
  \<open>Some positions\<close> is the argument of \<^verbatim>\<open>setLetters\<close>.
\<close>

definition layoutEffect ::
  "HTMLDivElement option \<Rightarrow> HTMLDivElement option list \<Rightarrow> jsstring \<Rightarrow> number \<Rightarrow> bool \<Rightarrow>
     LetterData list option" where
  "layoutEffect containerRef letterRefs text spacing verticalCenter =
     (case containerRef of
        None \<Rightarrow> None
      | Some container \<Rightarrow>
          if length letterRefs = 0 then None
          else
            let containerWidth = offsetWidth container;
                widths = measuredWidths text letterRefs;
                total = totalWidth widths spacing text;
                startX = (containerWidth - total) / 2;
                tp = (if verticalCenter then offsetHeight container / 2 - 32 else 100)
            in Some (fst (pushLetters text 0 widths spacing tp ([], startX))))"


subsection \<open>The layout effect in double precision\<close>

text \<open>
  The program computes with IEEE 754 double-precision numbers: the result of every
  \<^verbatim>\<open>+\<close>, \<^verbatim>\<open>-\<close>, \<^verbatim>\<open>*\<close> and \<^verbatim>\<open>/\<close> is the exact result rounded to the nearest
  double, ties going to the even significand. A finite double is a rational
  \<open>k * 2 powi e\<close> with \<open>\<bar>k\<bar> < 2 ^ 53\<close> and \<open>- 1074 \<le> e\<close>. The exponent is not bounded
  above here: results from \<open>2 ^ 1024\<close> on, which the program turns into
  \<^verbatim>\<open>Infinity\<close>, as well as \<^verbatim>\<open>NaN\<close> and the sign of zero are outside the model.

  \<open>ilog2 q\<close> is the integer part of the binary logarithm of a positive rational.
\<close>

definition ilog2 :: "rat \<Rightarrow> int" where
  "ilog2 q =
     (let (a, b) = quotient_of q; d = bitlen a - bitlen b
      in if 2 powi d \<le> q then d else d - 1)"

definition roundHalfEven :: "rat \<Rightarrow> int" where
  "roundHalfEven x =
     (let r = \<lfloor>x\<rfloor>; f = x - of_int r
      in if f < 1 / 2 then r else if 1 / 2 < f then r + 1 else if even r then r else r + 1)"

definition binary64 :: "rat \<Rightarrow> rat" where
  "binary64 q =
     (if q = 0 then 0
      else let e = max (ilog2 \<bar>q\<bar> - 52) (- 1074)
           in of_int (roundHalfEven (q / 2 powi e)) * 2 powi e)"

definition add64 :: "number \<Rightarrow> number \<Rightarrow> number" where
  "add64 x y = binary64 (x + y)"

definition sub64 :: "number \<Rightarrow> number \<Rightarrow> number" where
  "sub64 x y = binary64 (x - y)"

definition mul64 :: "number \<Rightarrow> number \<Rightarrow> number" where
  "mul64 x y = binary64 (x * y)"

definition div64 :: "number \<Rightarrow> number \<Rightarrow> number" where
  "div64 x y = binary64 (x / y)"

text \<open>\<^verbatim>\<open>widths.reduce((sum, w) => sum + w, 0) + spacing * (text.length - 1)\<close>\<close>

definition totalWidth64 :: "number list \<Rightarrow> number \<Rightarrow> jsstring \<Rightarrow> number" where
  "totalWidth64 widths spacing text =
     add64 (foldl (\<lambda>sum w. add64 sum w) 0 widths)
       (mul64 spacing (sub64 (of_nat (length text)) 1))"

text \<open>The \<^verbatim>\<open>forEach\<close> loop, with \<^verbatim>\<open>currentLeft += (widths[i] ?? 0) + spacing\<close> rounded.\<close>

fun pushLetters64 ::
  "jsstring \<Rightarrow> nat \<Rightarrow> number list \<Rightarrow> number \<Rightarrow> number \<Rightarrow>
     LetterData list \<times> number \<Rightarrow> LetterData list \<times> number" where
  "pushLetters64 [] i widths spacing tp st = st"
| "pushLetters64 (c # cs) i widths spacing tp (positions, currentLeft) =
     pushLetters64 cs (Suc i) widths spacing tp
       (positions @ [\<lparr>char = c, top' = tp, left = currentLeft\<rparr>],
        add64 currentLeft (add64 (nullish (elemAt widths i) 0) spacing))"

text \<open>The layout effect as the program computes it.\<close>

definition layoutEffect64 ::
  "HTMLDivElement option \<Rightarrow> HTMLDivElement option list \<Rightarrow> jsstring \<Rightarrow> number \<Rightarrow> bool \<Rightarrow>
     LetterData list option" where
  "layoutEffect64 containerRef letterRefs text spacing verticalCenter =
     (case containerRef of
        None \<Rightarrow> None
      | Some container \<Rightarrow>
          if length letterRefs = 0 then None
          else
            let containerWidth = offsetWidth container;
                widths = measuredWidths text letterRefs;
                total = totalWidth64 widths spacing text;
                startX = div64 (sub64 containerWidth total) 2;
                tp = (if verticalCenter then sub64 (div64 (offsetHeight container) 2) 32
                      else 100)
            in Some (fst (pushLetters64 text 0 widths spacing tp ([], startX))))"

text \<open>
  Inputs on which no operation of the layout effect rounds: the container's width and
  height, the spacing and the measured widths are whole numbers of magnitude at most
  \<open>2 ^ 20\<close>, and the text has at most \<open>2 ^ 20\<close> code units.
\<close>

definition wholeUpTo :: "rat \<Rightarrow> rat \<Rightarrow> bool" where
  "wholeUpTo b x \<longleftrightarrow> of_int \<lfloor>x\<rfloor> = x \<and> \<bar>x\<bar> \<le> b"

definition halfUpTo :: "rat \<Rightarrow> rat \<Rightarrow> bool" where
  "halfUpTo b x \<longleftrightarrow> of_int \<lfloor>2 * x\<rfloor> = 2 * x \<and> \<bar>x\<bar> \<le> b"

definition exactInputs ::
  "HTMLDivElement \<Rightarrow> HTMLDivElement option list \<Rightarrow> jsstring \<Rightarrow> number \<Rightarrow> bool" where
  "exactInputs container letterRefs text spacing \<longleftrightarrow>
     wholeUpTo (2 ^ 20) (offsetWidth container) \<and>
     wholeUpTo (2 ^ 20) (offsetHeight container) \<and>
     wholeUpTo (2 ^ 20) spacing \<and>
     (\<forall>w \<in> set (measuredWidths text letterRefs). wholeUpTo (2 ^ 20) w) \<and>
     length text \<le> 2 ^ 20"

subsection \<open>The binding effect\<close>

text \<open>\<^verbatim>\<open>direction?: "x" | "y" | "both"\<close> and the \<^verbatim>\<open>type\<close> strings of the drag library.\<close>

datatype direction = DirX | DirY | Both

datatype dragType = TypeX | TypeY | TypeXY

text \<open>\<^verbatim>\<open>direction === "both" ? "x,y" : direction\<close>\<close>

fun typeOf :: "direction \<Rightarrow> dragType" where
  "typeOf Both = TypeXY"
| "typeOf DirX = TypeX"
| "typeOf DirY = TypeY"

text \<open>
  A callback prop is known by its identity only; calling it is recorded as an invocation
  with the arguments it receives.
\<close>

type_synonym callback = nat

datatype invocation = Invoke callback codeunit nat

text \<open>
  A DOM node is known by its identity, a number given to it when it is created; no two
  nodes share one.
\<close>

type_synonym element = nat

text \<open>
  The configuration object passed to \<^verbatim>\<open>Draggable.create\<close>. The two handlers are closures
  over \<^verbatim>\<open>letters\<close>, \<open>i\<close> and the callback; what a call of the handler does is fixed when
  the closure is made, so the record holds the invocations it performs.
\<close>

record Draggable =
  target :: element
  bounds :: HTMLDivElement
  inertia :: bool
  dragType :: dragType
  edgeResistance :: number
  onPress :: "invocation list"
  onRelease :: "invocation list"

text \<open>
  \<^verbatim>\<open>const letter = letters[i]; if (letter && cb) cb(letter.char, i);\<close>
\<close>

definition handler :: "LetterData list \<Rightarrow> nat \<Rightarrow> callback option \<Rightarrow> invocation list" where
  "handler letters i cb =
     (case elemAt letters i of
        None \<Rightarrow> []
      | Some letter \<Rightarrow> (case cb of None \<Rightarrow> [] | Some f \<Rightarrow> [Invoke f (char letter) i]))"

text \<open>
  The binding effect: the list of \<^verbatim>\<open>Draggable.create\<close> calls of one run, in order. The
  effect returns no cleanup function and keeps none of the handles.
\<close>

definition bindingEffect ::
  "HTMLDivElement option \<Rightarrow> element list \<Rightarrow> LetterData list \<Rightarrow> direction \<Rightarrow>
     callback option \<Rightarrow> callback option \<Rightarrow> Draggable list" where
  "bindingEffect containerRef els letters direction onDragStart onDragEnd =
     (case containerRef of
        None \<Rightarrow> []
      | Some container \<Rightarrow>
          map (\<lambda>(el, i).
                \<lparr>target = el, bounds = container, inertia = True,
                 dragType = typeOf direction, edgeResistance = 65 / 100,
                 onPress = handler letters i onDragStart,
                 onRelease = handler letters i onDragEnd\<rparr>)
              (zip els [0..<length els]))"

subsection \<open>The drag library\<close>

text \<open>
  Modelled from the spec: the drag library (\<^verbatim>\<open>gsap/Draggable\<close>) is not part of the
  repository. The spec describes it as the capability "make this element draggable ...,
  returning a handle that can be torn down": a binding stays active until its handle is
  torn down. What \<^verbatim>\<open>Draggable.create\<close> does to a binding that the same element already
  has is left open there, so it is the parameter \<open>replaces\<close>: with \<open>False\<close> the new binding
  is added beside the old one, with \<open>True\<close> the old binding of that element is torn down
  first.
\<close>

definition Draggable_create :: "bool \<Rightarrow> Draggable \<Rightarrow> Draggable list \<Rightarrow> Draggable list" where
  "Draggable_create replaces d active =
     (if replaces then filter (\<lambda>d'. target d' \<noteq> target d) active else active) @ [d]"

text \<open>The bindings that are active after a sequence of create calls and no other call.\<close>

definition activeAfter :: "bool \<Rightarrow> Draggable list \<Rightarrow> Draggable list" where
  "activeAfter replaces calls = foldl (\<lambda>active d. Draggable_create replaces d active) [] calls"

text \<open>A press gesture on an element runs the press handler of each of its active bindings.\<close>

definition press :: "Draggable list \<Rightarrow> element \<Rightarrow> invocation list" where
  "press active el = concat (map onPress (filter (\<lambda>d. target d = el) active))"

definition release :: "Draggable list \<Rightarrow> element \<Rightarrow> invocation list" where
  "release active el = concat (map onRelease (filter (\<lambda>d. target d = el) active))"

subsection \<open>The component\<close>

text \<open>
  The props as the component body sees them, after the defaults of the destructuring
  (\<^verbatim>\<open>direction = "both"\<close>, \<^verbatim>\<open>spacing = 12\<close>, \<^verbatim>\<open>verticalCenter = true\<close>) have
  been filled in; the class and style props do not reach the effects. The state is the
  ref array, the \<^verbatim>\<open>letters\<close> state and the log of the \<^verbatim>\<open>Draggable.create\<close> calls
  made so far.
\<close>

record props =
  text' :: jsstring
  direction :: direction
  spacing :: number
  verticalCenter :: bool
  onDragStart :: "callback option"
  onDragEnd :: "callback option"

record component =
  letterRefs :: "HTMLDivElement option list"
  letters :: "LetterData list"
  nodes :: "element list"
  nextNode :: nat
  created :: "Draggable list"

text \<open>
  \<^verbatim>\<open>useRef([])\<close>, \<^verbatim>\<open>useState([])\<close>, no glyph node in the document and no binding made
  yet. \<open>nodes\<close> are the visible glyph nodes (class \<^verbatim>\<open>draggable-letter\<close>) in document
  order, which is what \<^verbatim>\<open>querySelectorAll(".draggable-letter")\<close> returns; \<open>nextNode\<close> is
  the identity of the next node to be created.
\<close>

definition initial :: component where
  "initial = \<lparr>letterRefs = [], letters = [], nodes = [], nextNode = 0, created = []\<rparr>"

text \<open>
  The framework's side of the measuring layer. One hidden node is rendered per code unit
  of the text, and its ref callback \<^verbatim>\<open>letterRefs.current[idx] = el\<close> is called with the
  node before the layout effect runs; for a node that is removed the callback is called
  with \<^verbatim>\<open>null\<close>. The array is never shortened. \<open>measureEl idx\<close> is the node rendered for
  index \<open>idx\<close>.
\<close>

definition commitLetterRefs ::
  "jsstring \<Rightarrow> (nat \<Rightarrow> HTMLDivElement) \<Rightarrow> HTMLDivElement option list \<Rightarrow>
     HTMLDivElement option list" where
  "commitLetterRefs text measureEl refs =
     map (\<lambda>idx. Some (measureEl idx)) [0..<length text] @
     replicate (length refs - length text) None"

text \<open>
  The framework's side of the visible layer. \<^verbatim>\<open>letters.map\<close> renders one node per entry
  of \<^verbatim>\<open>letters\<close>, with key \<^verbatim>\<open>letter-idx\<close>. The node of a key that is still rendered is
  kept, the node of a key that is no longer rendered is removed from the document, and a
  key that was not rendered before gets a new node.
\<close>

definition commitGlyphs :: "component \<Rightarrow> component" where
  "commitGlyphs st =
     (let n = length (letters st); k = length (nodes st)
      in st\<lparr>nodes := take n (nodes st) @ [nextNode st..<nextNode st + (n - k)],
            nextNode := nextNode st + (n - k)\<rparr>)"

text \<open>One run of the layout effect on the component's state.\<close>

definition layoutPhase :: "HTMLDivElement \<Rightarrow> props \<Rightarrow> component \<Rightarrow> component" where
  "layoutPhase container p st =
     (case layoutEffect (Some container) (letterRefs st) (text' p) (spacing p) (verticalCenter p) of
        None \<Rightarrow> st
      | Some positions \<Rightarrow> st\<lparr>letters := positions\<rparr>)"

text \<open>
  One run of the binding effect on the component's state, on the glyph nodes that are in
  the document and with the \<^verbatim>\<open>letters\<close> of the same render.
\<close>

definition bindingPhase :: "HTMLDivElement \<Rightarrow> props \<Rightarrow> component \<Rightarrow> component" where
  "bindingPhase container p st =
     st\<lparr>created := created st @
          bindingEffect (Some container) (nodes st) (letters st)
            (direction p) (onDragStart p) (onDragEnd p)\<rparr>"

text \<open>
  Mounting. The first render has \<^verbatim>\<open>letters = []\<close>; both effects run. When the layout
  effect calls \<^verbatim>\<open>setLetters\<close> the component renders again with the new array, and the
  binding effect runs again because \<^verbatim>\<open>letters\<close> is one of its dependencies.
\<close>

definition mount :: "HTMLDivElement \<Rightarrow> (nat \<Rightarrow> HTMLDivElement) \<Rightarrow> props \<Rightarrow> component" where
  "mount container measureEl p =
     (let st0 = initial\<lparr>letterRefs := commitLetterRefs (text' p) measureEl []\<rparr>;
          st1 = bindingPhase container p st0
      in case layoutEffect (Some container) (letterRefs st0) (text' p) (spacing p)
                (verticalCenter p) of
           None \<Rightarrow> st1
         | Some positions \<Rightarrow>
             bindingPhase container p (commitGlyphs (st1\<lparr>letters := positions\<rparr>)))"

text \<open>
  An update from props \<open>old\<close> to props \<open>p\<close>. The layout effect depends on
  \<^verbatim>\<open>[text, spacing, verticalCenter]\<close>, the binding effect on
  \<^verbatim>\<open>[letters, direction, onDragStart, onDragEnd]\<close>; an effect runs when one of its
  dependencies has changed (\<^verbatim>\<open>letters\<close> changes when \<^verbatim>\<open>setLetters\<close> is called, since
  the layout effect passes a new array each time). The first render of the update still shows the glyph nodes of
  the old \<^verbatim>\<open>letters\<close>, and its binding effect runs on them when the direction or a
  callback has changed. When the layout effect then calls \<^verbatim>\<open>setLetters\<close>, the
  component renders again and the binding effect runs on the new glyph nodes.
\<close>

definition layoutDepsChanged :: "props \<Rightarrow> props \<Rightarrow> bool" where
  "layoutDepsChanged old p \<longleftrightarrow>
     text' p \<noteq> text' old \<or> spacing p \<noteq> spacing old \<or>
     verticalCenter p \<noteq> verticalCenter old"

definition bindingDepsChanged :: "props \<Rightarrow> props \<Rightarrow> bool" where
  "bindingDepsChanged old p \<longleftrightarrow>
     direction p \<noteq> direction old \<or> onDragStart p \<noteq> onDragStart old \<or>
     onDragEnd p \<noteq> onDragEnd old"

definition update ::
  "HTMLDivElement \<Rightarrow> (nat \<Rightarrow> HTMLDivElement) \<Rightarrow> props \<Rightarrow> props \<Rightarrow> component \<Rightarrow> component" where
  "update container measureEl old p st =
     (let st0 = st\<lparr>letterRefs := commitLetterRefs (text' p) measureEl (letterRefs st)\<rparr>;
          st1 = (if bindingDepsChanged old p then bindingPhase container p st0 else st0)
      in if layoutDepsChanged old p
         then (case layoutEffect (Some container) (letterRefs st0) (text' p) (spacing p)
                      (verticalCenter p) of
                 None \<Rightarrow> st1
               | Some positions \<Rightarrow>
                   bindingPhase container p (commitGlyphs (st1\<lparr>letters := positions\<rparr>)))
         else st1)"

text \<open>
  A history of the component: it is mounted with the first props, and every later render
  is an update from the props of the render before it. Container and measuring nodes may
  differ from render to render. \<open>lastProps\<close> are the props of the last render.
\<close>

fun runFrom ::
  "props \<Rightarrow> component \<Rightarrow> (HTMLDivElement \<times> (nat \<Rightarrow> HTMLDivElement) \<times> props) list \<Rightarrow>
     component" where
  "runFrom old st [] = st"
| "runFrom old st ((container, measureEl, p) # rest) =
     runFrom p (update container measureEl old p st) rest"

definition run ::
  "HTMLDivElement \<Rightarrow> (nat \<Rightarrow> HTMLDivElement) \<Rightarrow> props \<Rightarrow>
     (HTMLDivElement \<times> (nat \<Rightarrow> HTMLDivElement) \<times> props) list \<Rightarrow> component" where
  "run container measureEl p rest = runFrom p (mount container measureEl p) rest"

fun lastProps ::
  "props \<Rightarrow> (HTMLDivElement \<times> (nat \<Rightarrow> HTMLDivElement) \<times> props) list \<Rightarrow> props" where
  "lastProps p [] = p"
| "lastProps p ((container, measureEl, q) # rest) = lastProps q rest"

text \<open>
  Invariants of the component. The glyph nodes in the document are pairwise different
  and, like the targets of all bindings made so far, older than the next node to be
  created.
\<close>

definition wellFormed :: "component \<Rightarrow> bool" where
  "wellFormed st \<longleftrightarrow>
     distinct (nodes st) \<and>
     (\<forall>e \<in> set (nodes st). e < nextNode st) \<and>
     (\<forall>d \<in> set (created st). target d < nextNode st)"

text \<open>
  The state is in step with the props \<open>p\<close> of the last render: one entry of
  \<^verbatim>\<open>letters\<close> and one glyph node per code unit of the text, and a ref array long enough
  for the text.
\<close>

definition inStep :: "props \<Rightarrow> component \<Rightarrow> bool" where
  "inStep p st \<longleftrightarrow>
     length (letters st) = length (text' p) \<and>
     length (nodes st) = length (letters st) \<and>
     length (text' p) \<le> length (letterRefs st)"

text \<open>
  With a library that replaces bindings, every glyph node in the document has exactly one
  active binding, and it is the one that the binding effect makes for that node from the
  props \<open>p\<close> and the current \<^verbatim>\<open>letters\<close>.
\<close>

definition boundAs :: "props \<Rightarrow> component \<Rightarrow> bool" where
  "boundAs p st \<longleftrightarrow>
     (\<forall>i < length (nodes st).
        map (\<lambda>d. (dragType d, onPress d, onRelease d))
          (filter (\<lambda>d. target d = nodes st ! i) (activeAfter True (created st))) =
        [(typeOf (direction p), handler (letters st) i (onDragStart p),
          handler (letters st) i (onDragEnd p))])"

subsection \<open>Sample inputs\<close>

text \<open>
  A container of 100 by 200 pixels, measuring nodes 10 pixels wide, and the text AB with
  both callbacks.
\<close>

definition sampleContainer :: HTMLDivElement where
  "sampleContainer = \<lparr>offsetWidth = 100, offsetHeight = 200\<rparr>"

definition sampleNode :: "nat \<Rightarrow> HTMLDivElement" where
  "sampleNode idx = \<lparr>offsetWidth = 10, offsetHeight = 88\<rparr>"

definition sampleProps :: props where
  "sampleProps =
     \<lparr>text' = [0x41, 0x42], direction = Both, spacing = 5, verticalCenter = True,
      onDragStart = Some 7, onDragEnd = Some 8\<rparr>"

subsection \<open>The loop without its accumulator\<close>

text \<open>
  The positions pushed by the loop from index \<open>i\<close> on, when \<^verbatim>\<open>currentLeft\<close> is \<open>cur\<close>;
  \<open>pushLetters\<close> appends exactly these to the array it is given.
\<close>

fun glyphs ::
  "jsstring \<Rightarrow> nat \<Rightarrow> number list \<Rightarrow> number \<Rightarrow> number \<Rightarrow> number \<Rightarrow> LetterData list" where
  "glyphs [] i widths gap tp cur = []"
| "glyphs (c # cs) i widths gap tp cur =
     \<lparr>char = c, top' = tp, left = cur\<rparr> #
     glyphs cs (Suc i) widths gap tp (cur + (nullish (elemAt widths i) 0 + gap))"

fun glyphs64 ::
  "jsstring \<Rightarrow> nat \<Rightarrow> number list \<Rightarrow> number \<Rightarrow> number \<Rightarrow> number \<Rightarrow> LetterData list" where
  "glyphs64 [] i widths gap tp cur = []"
| "glyphs64 (c # cs) i widths gap tp cur =
     \<lparr>char = c, top' = tp, left = cur\<rparr> #
     glyphs64 cs (Suc i) widths gap tp (add64 cur (add64 (nullish (elemAt widths i) 0) gap))"

section \<open>Properties of the layout loop\<close>

lemma pushLetters_glyphs:
  "fst (pushLetters cs i ws gap tp (ps, cur)) = ps @ glyphs cs i ws gap tp cur"
  by (induction cs arbitrary: i ps cur) simp_all

lemma length_glyphs: "length (glyphs cs i ws gap tp cur) = length cs"
  by (induction cs arbitrary: i cur) simp_all

lemma map_char_glyphs: "map char (glyphs cs i ws gap tp cur) = cs"
  by (induction cs arbitrary: i cur) simp_all

lemma top_glyphs: "p \<in> set (glyphs cs i ws gap tp cur) \<Longrightarrow> top' p = tp"
  by (induction cs arbitrary: i cur) auto

lemma left_glyphs_0: "cs \<noteq> [] \<Longrightarrow> left (glyphs cs i ws gap tp cur ! 0) = cur"
  by (cases cs) simp_all

lemma left_glyphs_Suc:
  "Suc k < length cs \<Longrightarrow>
     left (glyphs cs i ws gap tp cur ! Suc k) =
     left (glyphs cs i ws gap tp cur ! k) + (nullish (elemAt ws (i + k)) 0 + gap)"
proof (induction cs arbitrary: i cur k)
  case Nil
  then show ?case by simp
next
  case (Cons c cs)
  show ?case
  proof (cases k)
    case 0
    with Cons.prems have "cs \<noteq> []" by auto
    with 0 show ?thesis by (simp add: left_glyphs_0)
  next
    case (Suc j)
    with Cons.prems have "Suc j < length cs" by simp
    from Cons.IH [OF this] Suc show ?thesis by simp
  qed
qed

lemma foldl_plus_sum_list: "foldl (\<lambda>sum w. sum + w) a ws = a + sum_list (ws :: number list)"
  by (induction ws arbitrary: a) (simp_all add: add.assoc)

lemma length_measuredWidths: "length (measuredWidths txt refs) = length txt"
  by (simp add: measuredWidths_def)

lemma widths_at:
  "i < length txt \<Longrightarrow>
     nullish (elemAt (measuredWidths txt refs) i) 0 = measuredWidths txt refs ! i"
  by (simp add: elemAt_def nullish_def length_measuredWidths)

text \<open>
  With the container mounted and a non-empty ref array the effect reaches
  \<^verbatim>\<open>setLetters\<close>, and its argument is the run below.
\<close>

lemma layoutEffect_Some:
  "refs \<noteq> [] \<Longrightarrow>
     layoutEffect (Some container) refs txt gap vc =
     Some (glyphs txt 0 (measuredWidths txt refs) gap
             (if vc then offsetHeight container / 2 - 32 else 100)
             ((offsetWidth container -
                 (sum_list (measuredWidths txt refs) + gap * (of_nat (length txt) - 1))) / 2))"
  by (simp add: layoutEffect_def Let_def totalWidth_def pushLetters_glyphs foldl_plus_sum_list)

lemma commitLetterRefs_nonempty: "txt \<noteq> [] \<Longrightarrow> commitLetterRefs txt m refs \<noteq> []"
  by (simp add: commitLetterRefs_def)

lemma letters_bindingPhase: "letters (bindingPhase c p st) = letters st"
  by (simp add: bindingPhase_def)

lemma letters_commitGlyphs: "letters (commitGlyphs st) = letters st"
  by (simp add: commitGlyphs_def Let_def)

text \<open>What \<^verbatim>\<open>letters\<close> holds once a non-empty text has been mounted.\<close>

lemma letters_mount:
  "text' p \<noteq> [] \<Longrightarrow>
     letters (mount container m p) =
     glyphs (text' p) 0 (measuredWidths (text' p) (commitLetterRefs (text' p) m []))
       (spacing p) (if verticalCenter p then offsetHeight container / 2 - 32 else 100)
       ((offsetWidth container -
           (sum_list (measuredWidths (text' p) (commitLetterRefs (text' p) m [])) +
            spacing p * (of_nat (length (text' p)) - 1))) / 2)"
proof -
  assume "text' p \<noteq> []"
  then have "commitLetterRefs (text' p) m [] \<noteq> []" by (rule commitLetterRefs_nonempty)
  then have "layoutEffect (Some container) (commitLetterRefs (text' p) m []) (text' p)
               (spacing p) (verticalCenter p) =
     Some (glyphs (text' p) 0 (measuredWidths (text' p) (commitLetterRefs (text' p) m []))
       (spacing p) (if verticalCenter p then offsetHeight container / 2 - 32 else 100)
       ((offsetWidth container -
           (sum_list (measuredWidths (text' p) (commitLetterRefs (text' p) m [])) +
            spacing p * (of_nat (length (text' p)) - 1))) / 2))"
    by (rule layoutEffect_Some)
  then show ?thesis
    by (simp add: mount_def Let_def initial_def letters_bindingPhase letters_commitGlyphs)
qed

section \<open>Properties of the double arithmetic\<close>

text \<open>Rounding leaves a double as it is.\<close>

lemma ilog2_le:
  assumes "0 < q"
  shows "2 powi (ilog2 q) \<le> q"
proof -
  obtain a b where ab: "quotient_of q = (a, b)" by (cases "quotient_of q")
  then have b: "0 < b" by (rule quotient_of_denom_pos)
  from ab have q: "q = of_int a / of_int b" by (rule quotient_of_div)
  with assms b have a: "0 < a" by (simp add: zero_less_divide_iff)
  let ?d = "bitlen a - bitlen b"
  show ?thesis
  proof (cases "2 powi ?d \<le> q")
    case True
    then show ?thesis by (simp add: ilog2_def ab)
  next
    case False
    from a have la: "1 \<le> bitlen a" by (simp add: bitlen_alt_def)
    from bitlen_bounds [OF a] have lo: "(2::int) ^ nat (bitlen a - 1) \<le> a" by simp
    from bitlen_bounds [OF b] have hi: "b < (2::int) ^ nat (bitlen b)" by simp
    have lo': "(2::rat) ^ nat (bitlen a - 1) \<le> of_int a"
      using lo by (metis of_int_le_iff of_int_numeral of_int_power)
    have hi': "of_int b \<le> (2::rat) ^ nat (bitlen b)"
      using hi by (metis less_imp_le of_int_le_iff of_int_numeral of_int_power)
    have "?d - 1 = (bitlen a - 1) - bitlen b" by simp
    then have "(2::rat) powi (?d - 1) = 2 powi ((bitlen a - 1) - bitlen b)"
      by (rule arg_cong)
    also have "\<dots> = 2 powi (bitlen a - 1) / 2 powi (bitlen b)"
      by (rule power_int_diff) simp
    also have "\<dots> = 2 ^ nat (bitlen a - 1) / 2 ^ nat (bitlen b)"
      using la bitlen_nonneg [of b] by (simp add: power_int_def)
    also have "\<dots> \<le> of_int a / of_int b"
      using lo' hi' b a by (intro frac_le) simp_all
    finally have "(2::rat) powi (?d - 1) \<le> q" by (simp add: q)
    with False show ?thesis by (simp add: ilog2_def ab)
  qed
qed

lemma roundHalfEven_of_int: "roundHalfEven (of_int n) = n"
  by (simp add: roundHalfEven_def)

lemma binary64_exact:
  assumes "\<bar>k\<bar> < 2 ^ 53" and "- 1074 \<le> j"
  shows "binary64 (of_int k * 2 powi j) = of_int k * 2 powi j"
proof (cases "k = 0")
  case True
  then show ?thesis by (simp add: binary64_def)
next
  case False
  let ?q = "of_int k * (2::rat) powi j"
  let ?e = "max (ilog2 \<bar>?q\<bar> - 52) (- 1074)"
  have pos: "0 < \<bar>?q\<bar>" using False by simp
  have q0: "?q \<noteq> 0" using False by simp
  have "2 powi (ilog2 \<bar>?q\<bar>) \<le> \<bar>?q\<bar>" using pos by (rule ilog2_le)
  also have "\<bar>?q\<bar> = of_int \<bar>k\<bar> * 2 powi j" by (simp add: abs_mult)
  also have "\<dots> < 2 ^ 53 * 2 powi j"
  proof -
    from assms(1) have "(of_int \<bar>k\<bar> :: rat) < of_int (2 ^ 53)" by (simp only: of_int_less_iff)
    then have "(of_int \<bar>k\<bar> :: rat) < 2 ^ 53" by simp
    then show ?thesis by (intro mult_strict_right_mono) simp_all
  qed
  also have "\<dots> = (2::rat) powi (53 + j)"
    by (simp add: power_int_add)
  finally have "(2::rat) powi (ilog2 \<bar>?q\<bar>) < 2 powi (53 + j)" .
  then have "ilog2 \<bar>?q\<bar> < 53 + j"
    using power_int_increasing [of "53 + j" "ilog2 \<bar>?q\<bar>" "2::rat"]
    by (cases "ilog2 \<bar>?q\<bar> < 53 + j") simp_all
  with assms(2) have e: "?e \<le> j" by simp
  then obtain n where n: "j - ?e = int n" using nonneg_int_cases [of "j - ?e"] by auto
  have "?q / 2 powi ?e = of_int k * 2 powi (j - ?e)"
    by (simp add: power_int_diff)
  also have "\<dots> = of_int (k * 2 ^ n)"
    by (simp add: n)
  finally have m: "?q / 2 powi ?e = of_int (k * 2 ^ n)" .
  have "binary64 ?q = of_int (roundHalfEven (?q / 2 powi ?e)) * 2 powi ?e"
    using q0 by (simp add: binary64_def Let_def)
  also have "\<dots> = of_int (k * 2 ^ n) * 2 powi ?e"
    by (simp only: m roundHalfEven_of_int)
  also have "\<dots> = ?q / 2 powi ?e * 2 powi ?e"
    by (simp only: m)
  also have "\<dots> = ?q" by simp
  finally show ?thesis .
qed

text \<open>Whole and half numbers of moderate size are doubles.\<close>

lemma halfUpTo_binary64:
  assumes "halfUpTo b x" and "b \<le> 2 ^ 51"
  shows "binary64 x = x"
proof -
  let ?k = "\<lfloor>2 * x\<rfloor>"
  from assms(1) have k: "of_int ?k = 2 * x" and x: "\<bar>x\<bar> \<le> b"
    by (simp_all add: halfUpTo_def)
  from x assms(2) have "\<bar>2 * x\<bar> \<le> 2 ^ 52" by simp
  then have "\<bar>(of_int ?k :: rat)\<bar> < 2 ^ 53" by (simp only: k) simp
  then have "(of_int \<bar>?k\<bar> :: rat) < of_int (2 ^ 53)" by simp
  then have small: "\<bar>?k\<bar> < 2 ^ 53" by (simp only: of_int_less_iff)
  have xeq: "of_int ?k * 2 powi (- 1) = x" by (simp add: k)
  have "binary64 (of_int ?k * 2 powi (- 1)) = of_int ?k * 2 powi (- 1)"
    using small by (rule binary64_exact) simp
  then show ?thesis by (simp only: xeq)
qed

lemma wholeUpTo_Ints: "wholeUpTo b x \<longleftrightarrow> x \<in> \<int> \<and> \<bar>x\<bar> \<le> b"
  by (auto simp: wholeUpTo_def elim: Ints_cases)

lemma halfUpTo_Ints: "halfUpTo b x \<longleftrightarrow> 2 * x \<in> \<int> \<and> \<bar>x\<bar> \<le> b"
  by (auto simp: halfUpTo_def elim: Ints_cases)

lemma wholeUpTo_half: "wholeUpTo b x \<Longrightarrow> halfUpTo b x"
  by (simp add: wholeUpTo_Ints halfUpTo_Ints)

lemma wholeUpTo_mono: "wholeUpTo a x \<Longrightarrow> a \<le> b \<Longrightarrow> wholeUpTo b x"
  by (simp add: wholeUpTo_Ints)

lemma halfUpTo_mono: "halfUpTo a x \<Longrightarrow> a \<le> b \<Longrightarrow> halfUpTo b x"
  by (simp add: halfUpTo_Ints)

lemma wholeUpTo_add: "wholeUpTo a x \<Longrightarrow> wholeUpTo b y \<Longrightarrow> wholeUpTo (a + b) (x + y)"
  by (auto simp: wholeUpTo_Ints)

lemma wholeUpTo_diff: "wholeUpTo a x \<Longrightarrow> wholeUpTo b y \<Longrightarrow> wholeUpTo (a + b) (x - y)"
  by (auto simp: wholeUpTo_Ints)

lemma wholeUpTo_mult: "wholeUpTo a x \<Longrightarrow> wholeUpTo b y \<Longrightarrow> wholeUpTo (a * b) (x * y)"
  by (auto simp: wholeUpTo_Ints abs_mult intro: mult_mono)

lemma halfUpTo_add: "halfUpTo a x \<Longrightarrow> halfUpTo b y \<Longrightarrow> halfUpTo (a + b) (x + y)"
  by (auto simp: halfUpTo_Ints distrib_left)

lemma halfUpTo_halve: "wholeUpTo a x \<Longrightarrow> halfUpTo (a / 2) (x / 2)"
  by (auto simp: wholeUpTo_Ints halfUpTo_Ints)

lemma add64_exact:
  "halfUpTo a x \<Longrightarrow> halfUpTo b y \<Longrightarrow> a + b \<le> 2 ^ 51 \<Longrightarrow> add64 x y = x + y"
  unfolding add64_def by (rule halfUpTo_binary64 [OF halfUpTo_add])

lemma sub64_exact:
  "wholeUpTo a x \<Longrightarrow> wholeUpTo b y \<Longrightarrow> a + b \<le> 2 ^ 51 \<Longrightarrow> sub64 x y = x - y"
  unfolding sub64_def by (rule halfUpTo_binary64 [OF wholeUpTo_half [OF wholeUpTo_diff]])

lemma mul64_exact:
  "wholeUpTo a x \<Longrightarrow> wholeUpTo b y \<Longrightarrow> a * b \<le> 2 ^ 51 \<Longrightarrow> mul64 x y = x * y"
  unfolding mul64_def by (rule halfUpTo_binary64 [OF wholeUpTo_half [OF wholeUpTo_mult]])

lemma div64_exact:
  assumes "wholeUpTo a x" and "a \<le> 2 ^ 52"
  shows "div64 x 2 = x / 2"
proof -
  from assms(1) have "halfUpTo (a / 2) (x / 2)" by (rule halfUpTo_halve)
  moreover from assms(2) have "a / 2 \<le> 2 ^ 51" by simp
  ultimately show ?thesis unfolding div64_def by (rule halfUpTo_binary64)
qed

lemma halfUpTo_diff: "halfUpTo a x \<Longrightarrow> halfUpTo b y \<Longrightarrow> halfUpTo (a + b) (x - y)"
  by (auto simp: halfUpTo_Ints right_diff_distrib)

lemma sub64_exact_half:
  "halfUpTo a x \<Longrightarrow> halfUpTo b y \<Longrightarrow> a + b \<le> 2 ^ 51 \<Longrightarrow> sub64 x y = x - y"
  unfolding sub64_def by (rule halfUpTo_binary64 [OF halfUpTo_diff])

lemma wholeUpTo_nonneg: "wholeUpTo b x \<Longrightarrow> 0 \<le> b"
  using abs_ge_zero [of x] by (simp only: wholeUpTo_Ints) linarith

lemma halfUpTo_nonneg: "halfUpTo b x \<Longrightarrow> 0 \<le> b"
  using abs_ge_zero [of x] by (simp only: halfUpTo_Ints) linarith

lemma wholeUpTo_0: "0 \<le> b \<Longrightarrow> wholeUpTo b 0"
  by (simp add: wholeUpTo_Ints)

lemma wholeUpTo_of_nat: "of_nat n \<le> b \<Longrightarrow> wholeUpTo b (of_nat n)"
  by (simp add: wholeUpTo_Ints)

text \<open>The sum of the widths.\<close>

lemma foldl_add64:
  assumes "\<forall>w \<in> set ws. wholeUpTo B w" and "wholeUpTo A a" and "0 \<le> B"
    and "A + of_nat (length ws) * B \<le> 2 ^ 51"
  shows "foldl (\<lambda>sum w. add64 sum w) a ws = a + sum_list ws \<and>
         wholeUpTo (A + of_nat (length ws) * B) (a + sum_list ws)"
  using assms
proof (induction ws arbitrary: a A)
  case Nil
  then show ?case by simp
next
  case (Cons w ws)
  from Cons.prems(1) have w: "wholeUpTo B w" and rest: "\<forall>w \<in> set ws. wholeUpTo B w"
    by simp_all
  have "0 \<le> of_nat (length ws) * B" using Cons.prems(3) by simp
  with Cons.prems(4) have ab: "A + B \<le> 2 ^ 51" by (simp add: algebra_simps)
  have step: "add64 a w = a + w"
    using wholeUpTo_half [OF Cons.prems(2)] wholeUpTo_half [OF w] ab by (rule add64_exact)
  have whole: "wholeUpTo (A + B) (a + w)"
    using Cons.prems(2) w by (rule wholeUpTo_add)
  have bound: "(A + B) + of_nat (length ws) * B \<le> 2 ^ 51"
    using Cons.prems(4) by (simp add: algebra_simps)
  from Cons.IH [OF rest whole Cons.prems(3) bound] step show ?case
    by (simp add: algebra_simps)
qed

text \<open>The loop.\<close>

lemma width_wholeUpTo:
  "\<forall>w \<in> set ws. wholeUpTo B w \<Longrightarrow> 0 \<le> B \<Longrightarrow> wholeUpTo B (nullish (elemAt ws i) 0)"
  by (simp add: elemAt_def nullish_def wholeUpTo_0)

lemma glyphs64_exact:
  assumes "halfUpTo C cur" and "\<forall>w \<in> set ws. wholeUpTo B w" and "wholeUpTo B gap"
    and "C + of_nat (length cs) * (2 * B) \<le> 2 ^ 51"
  shows "glyphs64 cs i ws gap tp cur = glyphs cs i ws gap tp cur"
  using assms(1,4)
proof (induction cs arbitrary: i cur C)
  case Nil
  then show ?case by simp
next
  case (Cons c cs)
  from assms(3) have B: "0 \<le> B" by (rule wholeUpTo_nonneg)
  from Cons.prems(1) have C: "0 \<le> C" by (rule halfUpTo_nonneg)
  let ?w = "nullish (elemAt ws i) 0"
  have w: "wholeUpTo B ?w" using assms(2) B by (rule width_wholeUpTo)
  have n: "0 \<le> of_nat (length cs) * (2 * B)" using B by simp
  from Cons.prems(2) have bound: "(C + 2 * B) + of_nat (length cs) * (2 * B) \<le> 2 ^ 51"
    by (simp add: algebra_simps)
  with n have cb: "C + 2 * B \<le> 2 ^ 51" by linarith
  with C have bb: "B + B \<le> 2 ^ 51" by linarith
  have s1: "add64 ?w gap = ?w + gap"
    using wholeUpTo_half [OF w] wholeUpTo_half [OF assms(3)] bb by (rule add64_exact)
  have "wholeUpTo (B + B) (?w + gap)" using w assms(3) by (rule wholeUpTo_add)
  then have h1: "halfUpTo (2 * B) (?w + gap)" by (simp add: wholeUpTo_half)
  have s2: "add64 cur (?w + gap) = cur + (?w + gap)"
    using Cons.prems(1) h1 cb by (rule add64_exact)
  have h2: "halfUpTo (C + 2 * B) (cur + (?w + gap))"
    using Cons.prems(1) h1 by (rule halfUpTo_add)
  from Cons.IH [OF h2 bound] show ?case by (simp add: s1 s2)
qed

lemma pushLetters64_glyphs64:
  "fst (pushLetters64 cs i ws gap tp (ps, cur)) = ps @ glyphs64 cs i ws gap tp cur"
  by (induction cs arbitrary: i ps cur) simp_all

text \<open>
  Whatever the inputs, the program's run has one position per code unit, in the order of
  the text, and starts at the program's own \<^verbatim>\<open>startX\<close>.
\<close>

lemma length_glyphs64: "length (glyphs64 cs i ws gap tp cur) = length cs"
  by (induction cs arbitrary: i cur) simp_all

lemma map_char_glyphs64: "map char (glyphs64 cs i ws gap tp cur) = cs"
  by (induction cs arbitrary: i cur) simp_all

lemma left_glyphs64_0: "cs \<noteq> [] \<Longrightarrow> left (glyphs64 cs i ws gap tp cur ! 0) = cur"
  by (cases cs) simp_all

lemma layoutEffect64_Some:
  "refs \<noteq> [] \<Longrightarrow>
     layoutEffect64 (Some container) refs txt gap vc =
     Some (glyphs64 txt 0 (measuredWidths txt refs) gap
             (if vc then sub64 (div64 (offsetHeight container) 2) 32 else 100)
             (div64 (sub64 (offsetWidth container)
                       (totalWidth64 (measuredWidths txt refs) gap txt)) 2))"
  by (simp add: layoutEffect64_def Let_def pushLetters64_glyphs64)

text \<open>On such inputs the program computes what exact arithmetic gives.\<close>

lemma layoutEffect64_exact:
  assumes "exactInputs container refs txt gap"
  shows "layoutEffect64 (Some container) refs txt gap vc =
         layoutEffect (Some container) refs txt gap vc"
proof (cases "refs = []")
  case True
  then show ?thesis by (simp add: layoutEffect64_def layoutEffect_def)
next
  case False
  let ?B = "2 ^ 20 :: rat"
  let ?ws = "measuredWidths txt refs"
  let ?n = "of_nat (length txt) :: rat"
  from assms have cw: "wholeUpTo ?B (offsetWidth container)"
    and ch: "wholeUpTo ?B (offsetHeight container)"
    and g: "wholeUpTo ?B gap"
    and ws: "\<forall>w \<in> set ?ws. wholeUpTo ?B w"
    and len: "length txt \<le> 2 ^ 20"
    by (simp_all add: exactInputs_def)
  from len have "?n \<le> of_nat (2 ^ 20)" by (simp only: of_nat_le_iff)
  then have n: "?n \<le> ?B" by simp
  have n0: "0 \<le> ?n" by simp
  have nB: "?n * ?B \<le> ?B * ?B" using n by (intro mult_right_mono) simp_all
  \<comment> \<open>the sum of the widths\<close>
  have "(0::rat) + of_nat (length ?ws) * ?B \<le> 2 ^ 51"
    using nB by (simp add: length_measuredWidths)
  with ws have sum: "foldl (\<lambda>sum w. add64 sum w) 0 ?ws = 0 + sum_list ?ws \<and>
      wholeUpTo (0 + of_nat (length ?ws) * ?B) (0 + sum_list ?ws)"
    by (intro foldl_add64) (simp_all add: wholeUpTo_0)
  then have sum_eq: "foldl (\<lambda>sum w. add64 sum w) 0 ?ws = sum_list ?ws" by simp
  from sum have "wholeUpTo (?n * ?B) (sum_list ?ws)" by (simp add: length_measuredWidths)
  then have sum_w: "wholeUpTo (?B * ?B) (sum_list ?ws)" using nB by (rule wholeUpTo_mono)
  \<comment> \<open>the gaps\<close>
  have nw: "wholeUpTo ?B ?n" using n by (rule wholeUpTo_of_nat)
  have one: "wholeUpTo 1 (1::rat)" by (simp add: wholeUpTo_Ints)
  have count: "sub64 ?n 1 = ?n - 1" using nw one by (rule sub64_exact) simp
  have count_w: "wholeUpTo (?B + 1) (?n - 1)" using nw one by (rule wholeUpTo_diff)
  have gaps: "mul64 gap (?n - 1) = gap * (?n - 1)"
    using g count_w by (rule mul64_exact) simp
  have gaps_w: "wholeUpTo (?B * (?B + 1)) (gap * (?n - 1))"
    using g count_w by (rule wholeUpTo_mult)
  \<comment> \<open>the total width and the start\<close>
  have total: "add64 (sum_list ?ws) (gap * (?n - 1)) = sum_list ?ws + gap * (?n - 1)"
    using wholeUpTo_half [OF sum_w] wholeUpTo_half [OF gaps_w] by (rule add64_exact) simp
  have total_w: "wholeUpTo (?B * ?B + ?B * (?B + 1)) (sum_list ?ws + gap * (?n - 1))"
    using sum_w gaps_w by (rule wholeUpTo_add)
  have tw: "totalWidth64 ?ws gap txt = sum_list ?ws + gap * (?n - 1)"
    by (simp add: totalWidth64_def sum_eq count gaps total)
  have diff: "sub64 (offsetWidth container) (sum_list ?ws + gap * (?n - 1)) =
      offsetWidth container - (sum_list ?ws + gap * (?n - 1))"
    using cw total_w by (rule sub64_exact) simp
  have diff_w: "wholeUpTo (?B + (?B * ?B + ?B * (?B + 1)))
      (offsetWidth container - (sum_list ?ws + gap * (?n - 1)))"
    using cw total_w by (rule wholeUpTo_diff)
  have start: "div64 (offsetWidth container - (sum_list ?ws + gap * (?n - 1))) 2 =
      (offsetWidth container - (sum_list ?ws + gap * (?n - 1))) / 2"
    using diff_w by (rule div64_exact) simp
  have start_h: "halfUpTo ((?B + (?B * ?B + ?B * (?B + 1))) / 2)
      ((offsetWidth container - (sum_list ?ws + gap * (?n - 1))) / 2)"
    using diff_w by (rule halfUpTo_halve)
  \<comment> \<open>the vertical position\<close>
  have h2: "div64 (offsetHeight container) 2 = offsetHeight container / 2"
    using ch by (rule div64_exact) simp
  have h2_h: "halfUpTo (?B / 2) (offsetHeight container / 2)"
    using ch by (rule halfUpTo_halve)
  have c32: "halfUpTo 32 (32::rat)" by (simp add: halfUpTo_Ints)
  have tp: "sub64 (offsetHeight container / 2) 32 = offsetHeight container / 2 - 32"
    using h2_h c32 by (rule sub64_exact_half) simp
  \<comment> \<open>the loop\<close>
  have "(?B + (?B * ?B + ?B * (?B + 1))) / 2 + ?n * (2 * ?B) \<le> 2 ^ 51"
  proof -
    have "?n * (2 * ?B) \<le> ?B * (2 * ?B)" using n by (intro mult_right_mono) simp_all
    then show ?thesis by simp
  qed
  with start_h ws g have loop: "glyphs64 txt 0 ?ws gap tp
        ((offsetWidth container - (sum_list ?ws + gap * (?n - 1))) / 2) =
      glyphs txt 0 ?ws gap tp
        ((offsetWidth container - (sum_list ?ws + gap * (?n - 1))) / 2)" for tp
    by (intro glyphs64_exact)
  have "layoutEffect64 (Some container) refs txt gap vc =
      Some (glyphs64 txt 0 ?ws gap
              (if vc then offsetHeight container / 2 - 32 else 100)
              ((offsetWidth container - (sum_list ?ws + gap * (?n - 1))) / 2))"
    using False
    by (simp add: layoutEffect64_def Let_def tw diff start h2 tp pushLetters64_glyphs64)
  with loop show ?thesis using False by (simp add: layoutEffect_Some)
qed

section \<open>Claims\<close>



text \<open>
  C2, as the code has it. When the spacing, the measured widths and the container's width
  and height are whole numbers of magnitude at most \<open>2 ^ 20\<close> and the text has at most
  \<open>2 ^ 20\<close> code units, no operation of the program rounds, and then, for a text of two
  or more code units and every adjacent pair of the computed positions:
  left[i+1] - left[i] = spacing + width[i], also when both sides are computed in double
  precision; a glyph of measured width 0 that is not the last one is followed by exactly
  one spacing gap; position i carries code unit i of the text; and glyph i+1 lies to the
  right of glyph i exactly when spacing + width[i] is positive.
\<close>

theorem adjacent_gap_exact_inputs:
  assumes "refs \<noteq> []" and "exactInputs container refs txt gap"
  shows "\<exists>positions.
           layoutEffect64 (Some container) refs txt gap vc = Some positions \<and>
           length positions = length txt \<and>
           (\<forall>i. Suc i < length txt \<longrightarrow>
              left (positions ! Suc i) - left (positions ! i) =
                gap + measuredWidths txt refs ! i \<and>
              sub64 (left (positions ! Suc i)) (left (positions ! i)) =
                add64 gap (measuredWidths txt refs ! i) \<and>
              (measuredWidths txt refs ! i = 0 \<longrightarrow>
                 left (positions ! Suc i) - left (positions ! i) = gap) \<and>
              (left (positions ! i) < left (positions ! Suc i) \<longleftrightarrow>
                 0 < gap + measuredWidths txt refs ! i) \<and>
              char (positions ! i) = txt ! i \<and>
              char (positions ! Suc i) = txt ! Suc i)"
proof -
  let ?ws = "measuredWidths txt refs"
  let ?tp = "if vc then offsetHeight container / 2 - 32 else 100"
  let ?x = "(offsetWidth container - (sum_list ?ws + gap * (of_nat (length txt) - 1))) / 2"
  let ?ps = "glyphs txt 0 ?ws gap ?tp ?x"
  have "layoutEffect64 (Some container) refs txt gap vc =
        layoutEffect (Some container) refs txt gap vc"
    using assms(2) by (rule layoutEffect64_exact)
  also have "\<dots> = Some ?ps" using assms(1) by (rule layoutEffect_Some)
  finally have run: "layoutEffect64 (Some container) refs txt gap vc = Some ?ps" .
  have chars: "map char ?ps = txt" by (rule map_char_glyphs)
  have len: "length ?ps = length txt" by (rule length_glyphs)
  from assms(2) have g: "wholeUpTo (2 ^ 20) gap"
    and ws: "\<forall>w \<in> set ?ws. wholeUpTo (2 ^ 20) w"
    by (simp_all add: exactInputs_def)
  have "left (?ps ! Suc i) - left (?ps ! i) = gap + ?ws ! i \<and>
        sub64 (left (?ps ! Suc i)) (left (?ps ! i)) = add64 gap (?ws ! i) \<and>
        (?ws ! i = 0 \<longrightarrow> left (?ps ! Suc i) - left (?ps ! i) = gap) \<and>
        (left (?ps ! i) < left (?ps ! Suc i) \<longleftrightarrow> 0 < gap + ?ws ! i) \<and>
        char (?ps ! i) = txt ! i \<and> char (?ps ! Suc i) = txt ! Suc i"
    if i: "Suc i < length txt" for i
  proof -
    from i have i': "i < length txt" by simp
    then have "?ws ! i \<in> set ?ws" by (simp add: length_measuredWidths)
    with ws have w: "wholeUpTo (2 ^ 20) (?ws ! i)" by blast
    have "left (?ps ! Suc i) = left (?ps ! i) + (nullish (elemAt ?ws (0 + i)) 0 + gap)"
      using i by (rule left_glyphs_Suc)
    then have d: "left (?ps ! Suc i) - left (?ps ! i) = gap + ?ws ! i"
      using i' by (simp add: widths_at)
    have sum: "add64 gap (?ws ! i) = gap + ?ws ! i"
      using wholeUpTo_half [OF g] wholeUpTo_half [OF w] by (rule add64_exact) simp
    have "sub64 (left (?ps ! Suc i)) (left (?ps ! i)) = binary64 (gap + ?ws ! i)"
      by (simp only: sub64_def d)
    also have "\<dots> = add64 gap (?ws ! i)" by (simp only: add64_def)
    finally have d64: "sub64 (left (?ps ! Suc i)) (left (?ps ! i)) = add64 gap (?ws ! i)" .
    have c0: "char (?ps ! i) = txt ! i"
      using nth_map [of i ?ps char] i' len chars by simp
    have c1: "char (?ps ! Suc i) = txt ! Suc i"
      using nth_map [of "Suc i" ?ps char] i len chars by simp
    have order: "left (?ps ! i) < left (?ps ! Suc i) \<longleftrightarrow> 0 < gap + ?ws ! i"
      using d by linarith
    from d d64 c0 c1 order show ?thesis by simp
  qed
  with run len show ?thesis by blast
qed

theorem adjacent_gap_exact_inputs_witness:
  "\<exists>positions.
     layoutEffect64 (Some sampleContainer) [Some (sampleNode 0), Some (sampleNode 1)]
       [0x41, 0x42] 5 True = Some positions \<and>
     length positions = 2 \<and>
     left (positions ! Suc 0) - left (positions ! 0) = 15 \<and>
     left (positions ! 0) < left (positions ! Suc 0) \<and>
     char (positions ! 0) = 0x41 \<and> char (positions ! Suc 0) = 0x42"
proof -
  let ?refs = "[Some (sampleNode 0), Some (sampleNode 1)]"
  have w: "measuredWidths [0x41, 0x42] ?refs = [10, 10]"
    by (simp add: measuredWidths_def refWidth_def elemAt_def nullish_def upt_rec sampleNode_def)
  have h1: "?refs \<noteq> []" by simp
  have h2: "exactInputs sampleContainer ?refs [0x41, 0x42] 5"
    unfolding exactInputs_def w
    by (simp add: wholeUpTo_Ints sampleContainer_def)
  from adjacent_gap_exact_inputs [OF h1 h2, of True]
  obtain positions where
    run: "layoutEffect64 (Some sampleContainer) ?refs [0x41, 0x42] 5 True = Some positions"
    and len: "length positions = length [0x41 :: codeunit, 0x42]"
    and all: "\<forall>i. Suc i < length [0x41 :: codeunit, 0x42] \<longrightarrow>
              left (positions ! Suc i) - left (positions ! i) =
                5 + measuredWidths [0x41, 0x42] ?refs ! i \<and>
              sub64 (left (positions ! Suc i)) (left (positions ! i)) =
                add64 5 (measuredWidths [0x41, 0x42] ?refs ! i) \<and>
              (measuredWidths [0x41, 0x42] ?refs ! i = 0 \<longrightarrow>
                 left (positions ! Suc i) - left (positions ! i) = 5) \<and>
              (left (positions ! i) < left (positions ! Suc i) \<longleftrightarrow>
                 0 < 5 + measuredWidths [0x41, 0x42] ?refs ! i) \<and>
              char (positions ! i) = [0x41, 0x42] ! i \<and>
              char (positions ! Suc i) = [0x41, 0x42] ! Suc i"
    by blast
  from all [rule_format, of 0] w
  have "left (positions ! Suc 0) - left (positions ! 0) = 15 \<and>
        left (positions ! 0) < left (positions ! Suc 0) \<and>
        char (positions ! 0) = 0x41 \<and> char (positions ! Suc 0) = 0x42"
    by simp
  with run len show ?thesis by (simp add: numeral_2_eq_2)
qed

text \<open>
  The claim as stated fails twice. With spacing -15 and two glyphs of width 10 the second
  glyph is put to the left of the first, so the glyphs do not appear left to right. With
  spacing 12.3 and the same widths the program puts the glyphs at 33.85 and
  56.150000000000006, and the difference of the two is not spacing + width, neither
  exactly nor when both sides are computed in double precision.
\<close>

theorem adjacent_gap_counterexample:
  "layoutEffect64 (Some sampleContainer) [Some (sampleNode 0), Some (sampleNode 1)]
     [0x41, 0x42] (- 15) True =
     Some [\<lparr>char = 0x41, top' = 68, left = 95 / 2\<rparr>, \<lparr>char = 0x42, top' = 68, left = 85 / 2\<rparr>] \<and>
   layoutEffect64 (Some sampleContainer) [Some (sampleNode 0), Some (sampleNode 1)]
     [0x41, 0x42] (binary64 (123 / 10)) True =
     Some [\<lparr>char = 0x41, top' = 68, left = binary64 (3385 / 100)\<rparr>,
           \<lparr>char = 0x42, top' = 68, left = binary64 (56150000000000006 / 10 ^ 15)\<rparr>] \<and>
   binary64 (56150000000000006 / 10 ^ 15) - binary64 (3385 / 100) \<noteq>
     binary64 (123 / 10) + 10 \<and>
   sub64 (binary64 (56150000000000006 / 10 ^ 15)) (binary64 (3385 / 100)) \<noteq>
     add64 (binary64 (123 / 10)) 10"
  by code_simp

text \<open>
  C9. For a non-empty text the number of computed positions is the number of code units
  of the text (\<^verbatim>\<open>text.length\<close>); and after mounting, \<^verbatim>\<open>letters\<close> has one entry per
  code unit of the text.
\<close>

theorem positions_count:
  assumes "txt \<noteq> []" and "refs \<noteq> []"
  shows "(\<exists>positions.
            layoutEffect (Some container) refs txt gap vc = Some positions \<and>
            length positions = length txt) \<and>
         (text' p = txt \<longrightarrow> length (letters (mount container m p)) = length txt)"
proof
  from assms(2) have "layoutEffect (Some container) refs txt gap vc =
      Some (glyphs txt 0 (measuredWidths txt refs) gap
             (if vc then offsetHeight container / 2 - 32 else 100)
             ((offsetWidth container -
                 (sum_list (measuredWidths txt refs) + gap * (of_nat (length txt) - 1))) / 2))"
    by (rule layoutEffect_Some)
  then show "\<exists>positions.
      layoutEffect (Some container) refs txt gap vc = Some positions \<and>
      length positions = length txt"
    by (simp add: length_glyphs)
next
  show "text' p = txt \<longrightarrow> length (letters (mount container m p)) = length txt"
  proof
    assume "text' p = txt"
    with assms(1) have "text' p \<noteq> []" by simp
    then show "length (letters (mount container m p)) = length txt"
      using \<open>text' p = txt\<close> by (simp add: letters_mount length_glyphs)
  qed
qed

theorem positions_count_witness:
  "(\<exists>positions.
      layoutEffect (Some sampleContainer) [Some (sampleNode 0), Some (sampleNode 1)]
        [0x41, 0x42] 5 True = Some positions \<and>
      length positions = 2) \<and>
   length (letters (mount sampleContainer sampleNode sampleProps)) = 2"
  using positions_count [of "[0x41, 0x42]" "[Some (sampleNode 0), Some (sampleNode 1)]"
      sampleContainer 5 True sampleProps sampleNode]
  by (simp add: sampleProps_def numeral_2_eq_2)




text \<open>
  C7. Every glyph of a run, one per code unit of the text, gets the same vertical
  position, chosen by the flag: the constant 100 when it is false; when it is true, half
  the container height minus 32, which puts the middle of a glyph of height 64 on the
  middle of the container.
\<close>

theorem vertical_position:
  assumes "refs \<noteq> []"
  shows "\<exists>positions.
           layoutEffect (Some container) refs txt gap vc = Some positions \<and>
           length positions = length txt \<and>
           (\<forall>i < length txt.
              top' (positions ! i) = (if vc then offsetHeight container / 2 - 32 else 100) \<and>
              (vc \<longrightarrow> top' (positions ! i) + 64 / 2 = offsetHeight container / 2) \<and>
              (\<not> vc \<longrightarrow> top' (positions ! i) = 100))"
proof -
  let ?ws = "measuredWidths txt refs"
  let ?tp = "if vc then offsetHeight container / 2 - 32 else 100"
  let ?x = "(offsetWidth container - (sum_list ?ws + gap * (of_nat (length txt) - 1))) / 2"
  let ?ps = "glyphs txt 0 ?ws gap ?tp ?x"
  have run: "layoutEffect (Some container) refs txt gap vc = Some ?ps"
    using assms by (rule layoutEffect_Some)
  have len: "length ?ps = length txt" by (rule length_glyphs)
  have "top' (?ps ! i) = ?tp \<and> (vc \<longrightarrow> top' (?ps ! i) + 64 / 2 = offsetHeight container / 2) \<and>
        (\<not> vc \<longrightarrow> top' (?ps ! i) = 100)" if "i < length txt" for i
  proof -
    from that len have "?ps ! i \<in> set ?ps" by simp
    then have "top' (?ps ! i) = ?tp" by (rule top_glyphs)
    then show ?thesis by (cases vc) simp_all
  qed
  with run len show ?thesis by blast
qed

theorem vertical_position_witness:
  "(\<exists>positions.
      layoutEffect (Some sampleContainer) [Some (sampleNode 0), Some (sampleNode 1)]
        [0x41, 0x42] 5 True = Some positions \<and>
      length positions = 2 \<and> top' (positions ! 0) = 68 \<and> top' (positions ! 1) = 68) \<and>
   (\<exists>positions.
      layoutEffect (Some sampleContainer) [Some (sampleNode 0), Some (sampleNode 1)]
        [0x41, 0x42] 5 False = Some positions \<and>
      length positions = 2 \<and> top' (positions ! 0) = 100 \<and> top' (positions ! 1) = 100)"
proof -
  let ?refs = "[Some (sampleNode 0), Some (sampleNode 1)]"
  have h: "?refs \<noteq> []" by simp
  have height: "offsetHeight sampleContainer = 200" by (simp add: sampleContainer_def)
  have two: "length [0x41 :: codeunit, 0x42] = 2" by simp
  from vertical_position [OF h, of sampleContainer "[0x41, 0x42]" 5 True]
  obtain ps where
    run: "layoutEffect (Some sampleContainer) ?refs [0x41, 0x42] 5 True = Some ps"
    and len: "length ps = length [0x41 :: codeunit, 0x42]"
    and all: "\<forall>i < length [0x41 :: codeunit, 0x42].
        top' (ps ! i) = (if True then offsetHeight sampleContainer / 2 - 32 else 100) \<and>
        (True \<longrightarrow> top' (ps ! i) + 64 / 2 = offsetHeight sampleContainer / 2) \<and>
        (\<not> True \<longrightarrow> top' (ps ! i) = 100)"
    by blast
  from all [rule_format, of 0] all [rule_format, of 1]
  have tops: "top' (ps ! 0) = 68 \<and> top' (ps ! 1) = 68"
    by (simp add: height)
  from vertical_position [OF h, of sampleContainer "[0x41, 0x42]" 5 False]
  obtain qs where
    run': "layoutEffect (Some sampleContainer) ?refs [0x41, 0x42] 5 False = Some qs"
    and len': "length qs = length [0x41 :: codeunit, 0x42]"
    and all': "\<forall>i < length [0x41 :: codeunit, 0x42].
        top' (qs ! i) = (if False then offsetHeight sampleContainer / 2 - 32 else 100) \<and>
        (False \<longrightarrow> top' (qs ! i) + 64 / 2 = offsetHeight sampleContainer / 2) \<and>
        (\<not> False \<longrightarrow> top' (qs ! i) = 100)"
    by blast
  from all' [rule_format, of 0] all' [rule_format, of 1]
  have tops': "top' (qs ! 0) = 100 \<and> top' (qs ! 1) = 100"
    by simp
  from run len tops run' len' tops' show ?thesis by (simp add: two)
qed



text \<open>
  C6. For any text and any two spacings the two layouts carry the same code unit at each
  index, in the order of the text; the spacing changes neither the order nor the
  character at an index (nor the vertical position).
\<close>

theorem spacing_keeps_characters:
  assumes "refs \<noteq> []"
  shows "\<exists>p1 p2.
           layoutEffect (Some container) refs txt gap1 vc = Some p1 \<and>
           layoutEffect (Some container) refs txt gap2 vc = Some p2 \<and>
           map char p1 = txt \<and> map char p2 = txt \<and>
           length p1 = length p2 \<and>
           (\<forall>i < length txt. char (p1 ! i) = char (p2 ! i)) \<and>
           map top' p1 = map top' p2"
proof -
  let ?ws = "measuredWidths txt refs"
  let ?tp = "if vc then offsetHeight container / 2 - 32 else 100"
  let ?x = "\<lambda>gap. (offsetWidth container -
                      (sum_list ?ws + gap * (of_nat (length txt) - 1))) / 2"
  let ?ps = "\<lambda>gap. glyphs txt 0 ?ws gap ?tp (?x gap)"
  have run1: "layoutEffect (Some container) refs txt gap1 vc = Some (?ps gap1)"
    using assms by (rule layoutEffect_Some)
  have run2: "layoutEffect (Some container) refs txt gap2 vc = Some (?ps gap2)"
    using assms by (rule layoutEffect_Some)
  have c1: "map char (?ps gap1) = txt" by (rule map_char_glyphs)
  have c2: "map char (?ps gap2) = txt" by (rule map_char_glyphs)
  have l1: "length (?ps gap1) = length txt" by (rule length_glyphs)
  have l2: "length (?ps gap2) = length txt" by (rule length_glyphs)
  have same: "char (?ps gap1 ! i) = char (?ps gap2 ! i)" if "i < length txt" for i
    using nth_map [of i "?ps gap1" char] nth_map [of i "?ps gap2" char] that l1 l2 c1 c2
    by simp
  have t: "map top' (?ps gap) = replicate (length txt) ?tp" for gap
  proof (rule nth_equalityI)
    show "length (map top' (?ps gap)) = length (replicate (length txt) ?tp)"
      by (simp add: length_glyphs)
  next
    fix i assume "i < length (map top' (?ps gap))"
    then have i: "i < length (?ps gap)" by simp
    then have "?ps gap ! i \<in> set (?ps gap)" by (rule nth_mem)
    then have "top' (?ps gap ! i) = ?tp" by (rule top_glyphs)
    with i show "map top' (?ps gap) ! i = replicate (length txt) ?tp ! i"
      by (simp add: length_glyphs)
  qed
  have tops: "map top' (?ps gap1) = map top' (?ps gap2)"
    by (simp only: t)
  from run1 run2 c1 c2 l1 l2 same tops show ?thesis
    by (intro exI [of _ "?ps gap1"] exI [of _ "?ps gap2"]) simp
qed

theorem spacing_keeps_characters_witness:
  "\<exists>p1 p2.
     layoutEffect (Some \<lparr>offsetWidth = 100, offsetHeight = 200\<rparr>)
       [Some \<lparr>offsetWidth = 10, offsetHeight = 88\<rparr>, Some \<lparr>offsetWidth = 20, offsetHeight = 88\<rparr>]
       [0x41, 0x42] 5 True = Some p1 \<and>
     layoutEffect (Some \<lparr>offsetWidth = 100, offsetHeight = 200\<rparr>)
       [Some \<lparr>offsetWidth = 10, offsetHeight = 88\<rparr>, Some \<lparr>offsetWidth = 20, offsetHeight = 88\<rparr>]
       [0x41, 0x42] 12 True = Some p2 \<and>
     map char p1 = [0x41, 0x42] \<and> map char p2 = [0x41, 0x42]"
proof -
  have h: "[Some \<lparr>offsetWidth = 10, offsetHeight = 88\<rparr>,
            Some \<lparr>offsetWidth = 20, offsetHeight = 88\<rparr>] \<noteq> []" by simp
  from spacing_keeps_characters [OF h, of "\<lparr>offsetWidth = 100, offsetHeight = 200\<rparr>"
      "[0x41, 0x42]" 5 True 12]
  show ?thesis by (elim exE conjE) (intro exI conjI; assumption)
qed

text \<open>
  C5. The layout computation is a function of the text, the spacing, the flag, the
  container's width and height and the measured widths alone, and running the layout
  effect a second time on the state it produced changes nothing.
\<close>

theorem layout_deterministic_idempotent:
  "(refs \<noteq> [] \<and> refs' \<noteq> [] \<and> measuredWidths txt refs = measuredWidths txt refs' \<and>
      offsetWidth container = offsetWidth container' \<and>
      offsetHeight container = offsetHeight container' \<longrightarrow>
      layoutEffect (Some container) refs txt gap vc =
      layoutEffect (Some container') refs' txt gap vc) \<and>
   layoutPhase c p (layoutPhase c p st) = layoutPhase c p st"
proof
  show "refs \<noteq> [] \<and> refs' \<noteq> [] \<and> measuredWidths txt refs = measuredWidths txt refs' \<and>
      offsetWidth container = offsetWidth container' \<and>
      offsetHeight container = offsetHeight container' \<longrightarrow>
      layoutEffect (Some container) refs txt gap vc =
      layoutEffect (Some container') refs' txt gap vc"
    by (simp add: layoutEffect_Some)
next
  show "layoutPhase c p (layoutPhase c p st) = layoutPhase c p st"
    by (cases "layoutEffect (Some c) (letterRefs st) (text' p) (spacing p) (verticalCenter p)")
       (simp_all add: layoutPhase_def)
qed

theorem layout_deterministic_idempotent_witness:
  "layoutEffect (Some \<lparr>offsetWidth = 100, offsetHeight = 200\<rparr>)
     [Some \<lparr>offsetWidth = 10, offsetHeight = 88\<rparr>, None] [0x41] 5 True =
   layoutEffect (Some \<lparr>offsetWidth = 100, offsetHeight = 200\<rparr>)
     [Some \<lparr>offsetWidth = 10, offsetHeight = 70\<rparr>] [0x41] 5 True"
proof -
  let ?refs = "[Some \<lparr>offsetWidth = 10, offsetHeight = 88\<rparr>, None]"
  let ?refs' = "[Some \<lparr>offsetWidth = 10, offsetHeight = 70\<rparr>]"
  let ?c = "\<lparr>offsetWidth = 100, offsetHeight = 200\<rparr>"
  have h: "?refs \<noteq> [] \<and> ?refs' \<noteq> [] \<and>
      measuredWidths [0x41] ?refs = measuredWidths [0x41] ?refs' \<and>
      offsetWidth ?c = offsetWidth ?c \<and> offsetHeight ?c = offsetHeight ?c"
    by (simp add: measuredWidths_def refWidth_def elemAt_def nullish_def)
  from layout_deterministic_idempotent [of ?refs ?refs' "[0x41]" ?c ?c 5 True, THEN conjunct1] h
  show ?thesis by blast
qed

text \<open>
  C4. For the empty text no glyph position is produced and no drag binding is created.
  Mounting with the empty text leaves \<^verbatim>\<open>letters\<close> empty, renders no glyph node and
  calls \<^verbatim>\<open>Draggable.create\<close> not at all; in any state a run of the layout effect for the
  empty text either returns early or sets the empty array, and a run of the binding
  effect that finds no glyph node creates nothing. No statement on this path can throw, so the
  model has no error value.
\<close>

theorem empty_text_empty_run:
  assumes "text' p = []"
  shows "letters (mount container m p) = [] \<and>
         created (mount container m p) = [] \<and>
         (layoutEffect cref refs (text' p) gap vc = None \<or>
          layoutEffect cref refs (text' p) gap vc = Some []) \<and>
         nodes (mount container m p) = [] \<and>
         bindingEffect cref [] ls d f g = []"
proof -
  have refs0: "commitLetterRefs [] m [] = []"
    by (simp add: commitLetterRefs_def)
  have early: "layoutEffect (Some container) [] [] (spacing p) (verticalCenter p) = None"
    by (simp add: layoutEffect_def)
  have none: "bindingEffect cref [] ls d f g = []" for cref ls d f g
    by (cases cref) (simp_all add: bindingEffect_def)
  have m: "mount container m p = initial"
    using assms
    by (simp add: mount_def Let_def refs0 early bindingPhase_def initial_def none)
  have lay: "layoutEffect cref refs [] gap vc = None \<or>
             layoutEffect cref refs [] gap vc = Some []"
    by (cases cref) (simp_all add: layoutEffect_def Let_def)
  from m lay none assms show ?thesis
    by (simp add: initial_def)
qed

theorem empty_text_empty_run_witness:
  "letters (mount \<lparr>offsetWidth = 100, offsetHeight = 200\<rparr>
              (\<lambda>idx. \<lparr>offsetWidth = 10, offsetHeight = 88\<rparr>)
              \<lparr>text' = [], direction = Both, spacing = 12, verticalCenter = True,
               onDragStart = Some 7, onDragEnd = Some 8\<rparr>) = [] \<and>
   created (mount \<lparr>offsetWidth = 100, offsetHeight = 200\<rparr>
              (\<lambda>idx. \<lparr>offsetWidth = 10, offsetHeight = 88\<rparr>)
              \<lparr>text' = [], direction = Both, spacing = 12, verticalCenter = True,
               onDragStart = Some 7, onDragEnd = Some 8\<rparr>) = [] \<and>
   layoutEffect (Some \<lparr>offsetWidth = 100, offsetHeight = 200\<rparr>) [None, None] [] 12 True =
     Some []"
proof -
  let ?p = "\<lparr>text' = [], direction = Both, spacing = 12, verticalCenter = True,
             onDragStart = Some 7, onDragEnd = Some 8\<rparr>"
  have h: "text' ?p = []" by simp
  have run: "layoutEffect (Some \<lparr>offsetWidth = 100, offsetHeight = 200\<rparr>) [None, None]
               [] 12 True \<noteq> None"
    by (simp add: layoutEffect_def)
  from empty_text_empty_run [OF h, of "\<lparr>offsetWidth = 100, offsetHeight = 200\<rparr>"
      "\<lambda>idx. \<lparr>offsetWidth = 10, offsetHeight = 88\<rparr>"
      "Some \<lparr>offsetWidth = 100, offsetHeight = 200\<rparr>" "[None, None]" 12 True] run
  show ?thesis by simp
qed

section \<open>Properties of the binding effect\<close>

lemma handler_length: "length (handler ls i cb) \<le> Suc 0"
  by (simp add: handler_def split: option.splits)

lemma bindingEffect_targets: "map target (bindingEffect (Some c) els ls dir f g) = els"
proof -
  have "map target (bindingEffect (Some c) els ls dir f g) = map fst (zip els [0..<length els])"
    by (simp add: bindingEffect_def split_def comp_def)
  then show ?thesis by simp
qed

lemma bindingEffect_length: "length (bindingEffect (Some c) els ls dir f g) = length els"
  by (simp add: bindingEffect_def)

lemma bindingEffect_nth:
  "i < length els \<Longrightarrow>
     bindingEffect (Some c) els ls dir f g ! i =
     \<lparr>target = els ! i, bounds = c, inertia = True, dragType = typeOf dir,
      edgeResistance = 65 / 100, onPress = handler ls i f, onRelease = handler ls i g\<rparr>"
  by (simp add: bindingEffect_def)

text \<open>A library that only adds bindings keeps every binding it was asked to create.\<close>

lemma foldl_create_add:
  "foldl (\<lambda>active d. Draggable_create False d active) acc calls = acc @ calls"
  by (induction calls arbitrary: acc) (simp_all add: Draggable_create_def)

text \<open>
  A library that replaces bindings: creating on pairwise different elements drops the
  earlier bindings of exactly these elements.
\<close>

lemma foldl_create_replace:
  "distinct (map target new) \<Longrightarrow>
     foldl (\<lambda>active d. Draggable_create True d active) acc new =
     filter (\<lambda>d. target d \<notin> set (map target new)) acc @ new"
proof (induction new arbitrary: acc)
  case Nil
  then show ?case by simp
next
  case (Cons d new)
  from Cons.prems have d: "target d \<notin> set (map target new)" and dist: "distinct (map target new)"
    by simp_all
  have "foldl (\<lambda>active d. Draggable_create True d active) acc (d # new) =
        foldl (\<lambda>active d. Draggable_create True d active) (Draggable_create True d acc) new"
    by simp
  also have "\<dots> = filter (\<lambda>d'. target d' \<notin> set (map target new))
                    (Draggable_create True d acc) @ new"
    using dist by (rule Cons.IH)
  also have "\<dots> = filter (\<lambda>d'. target d' \<notin> set (map target (d # new))) acc @ d # new"
    using d by (auto simp: Draggable_create_def intro: filter_cong)
  finally show ?case .
qed

lemma activeAfter_append:
  "activeAfter r (xs @ ys) = foldl (\<lambda>active d. Draggable_create r d active) (activeAfter r xs) ys"
  by (simp add: activeAfter_def)

text \<open>Whatever the library does on a second binding, a bound element stays bound.\<close>

lemma foldl_create_targets:
  "target ` set (foldl (\<lambda>active d. Draggable_create r d active) acc calls) =
   target ` set acc \<union> target ` set calls"
proof (induction calls arbitrary: acc)
  case Nil
  then show ?case by simp
next
  case (Cons d calls)
  have "target ` set (Draggable_create r d acc) = target ` set acc \<union> {target d}"
    by (auto simp: Draggable_create_def)
  with Cons.IH [of "Draggable_create r d acc"] show ?case by auto
qed

lemma filter_nth_distinct:
  "distinct (map f xs) \<Longrightarrow> i < length xs \<Longrightarrow> filter (\<lambda>x. f x = f (xs ! i)) xs = [xs ! i]"
proof (induction xs arbitrary: i)
  case Nil
  then show ?case by simp
next
  case (Cons x xs)
  show ?case
  proof (cases i)
    case 0
    from Cons.prems have notin: "f x \<notin> f ` set xs" by simp
    have "f y \<noteq> f x" if "y \<in> set xs" for y
      using that notin by (metis imageI)
    then have "filter (\<lambda>y. f y = f x) xs = []"
      by (simp add: filter_empty_conv)
    with 0 show ?thesis by simp
  next
    case (Suc j)
    with Cons.prems have j: "j < length xs" and dist: "distinct (map f xs)" by simp_all
    from j have "xs ! j \<in> set xs" by simp
    with Cons.prems have "f x \<noteq> f (xs ! j)" by auto
    with Cons.IH [OF dist j] Suc show ?thesis by simp
  qed
qed

subsection \<open>Invariants of the component\<close>

lemma wellFormed_initial: "wellFormed initial"
  by (simp add: wellFormed_def initial_def)

lemma wellFormed_letterRefs: "wellFormed (st\<lparr>letterRefs := refs\<rparr>) = wellFormed st"
  by (simp add: wellFormed_def)

lemma wellFormed_bindingPhase:
  assumes "wellFormed st"
  shows "wellFormed (bindingPhase c p st)"
proof -
  let ?new = "bindingEffect (Some c) (nodes st) (letters st)
                (direction p) (onDragStart p) (onDragEnd p)"
  have "target ` set ?new = set (nodes st)"
    using bindingEffect_targets [of c "nodes st" "letters st" "direction p"
        "onDragStart p" "onDragEnd p"]
    by (metis set_map)
  with assms show ?thesis
    by (auto simp: wellFormed_def bindingPhase_def)
qed

lemma wellFormed_commitGlyphs:
  assumes "wellFormed st"
  shows "wellFormed (commitGlyphs (st\<lparr>letters := ls\<rparr>))"
proof -
  from assms have dist: "distinct (nodes st)"
    and old: "\<forall>e \<in> set (nodes st). e < nextNode st"
    and made: "\<forall>d \<in> set (created st). target d < nextNode st"
    by (simp_all add: wellFormed_def)
  let ?n = "length ls" and ?k = "length (nodes st)"
  let ?kept = "take ?n (nodes st)"
  let ?fresh = "[nextNode st..<nextNode st + (?n - ?k)]"
  have kept: "set ?kept \<subseteq> set (nodes st)" by (rule set_take_subset)
  have d1: "distinct ?kept" using dist by (rule distinct_take)
  have d2: "set ?kept \<inter> set ?fresh = {}"
    using kept old by fastforce
  have "distinct (?kept @ ?fresh)" using d1 d2 by simp
  moreover have "\<forall>e \<in> set (?kept @ ?fresh). e < nextNode st + (?n - ?k)"
    using kept old by fastforce
  moreover have "\<forall>d \<in> set (created st). target d < nextNode st + (?n - ?k)"
    using made by fastforce
  ultimately show ?thesis
    by (simp add: wellFormed_def commitGlyphs_def Let_def)
qed

lemma wellFormed_mount: "wellFormed (mount c m p)"
proof -
  let ?st0 = "initial\<lparr>letterRefs := commitLetterRefs (text' p) m []\<rparr>"
  have w0: "wellFormed ?st0" by (simp add: wellFormed_letterRefs wellFormed_initial)
  then have w1: "wellFormed (bindingPhase c p ?st0)" by (rule wellFormed_bindingPhase)
  show ?thesis
  proof (cases "layoutEffect (Some c) (letterRefs ?st0) (text' p) (spacing p) (verticalCenter p)")
    case None
    with w1 show ?thesis by (simp add: mount_def Let_def)
  next
    case (Some positions)
    from w1 have "wellFormed (commitGlyphs (bindingPhase c p ?st0\<lparr>letters := positions\<rparr>))"
      by (rule wellFormed_commitGlyphs)
    then have "wellFormed (bindingPhase c p
        (commitGlyphs (bindingPhase c p ?st0\<lparr>letters := positions\<rparr>)))"
      by (rule wellFormed_bindingPhase)
    with Some show ?thesis by (simp add: mount_def Let_def)
  qed
qed

lemma wellFormed_update:
  assumes "wellFormed st"
  shows "wellFormed (update c m old p st)"
proof -
  let ?st0 = "st\<lparr>letterRefs := commitLetterRefs (text' p) m (letterRefs st)\<rparr>"
  let ?st1 = "if bindingDepsChanged old p then bindingPhase c p ?st0 else ?st0"
  have w0: "wellFormed ?st0" using assms by (simp add: wellFormed_letterRefs)
  then have w1: "wellFormed ?st1" by (simp add: wellFormed_bindingPhase)
  have w2: "wellFormed (bindingPhase c p (commitGlyphs (?st1\<lparr>letters := positions\<rparr>)))"
    for positions
    using w1 by (intro wellFormed_bindingPhase wellFormed_commitGlyphs)
  show ?thesis
  proof (cases "layoutDepsChanged old p")
    case False
    with w1 show ?thesis by (simp add: update_def Let_def)
  next
    case True
    show ?thesis
    proof (cases "layoutEffect (Some c) (letterRefs ?st0) (text' p) (spacing p)
                    (verticalCenter p)")
      case None
      with True w1 show ?thesis by (simp add: update_def Let_def)
    next
      case (Some positions)
      with True w2 [of positions] show ?thesis by (simp add: update_def Let_def)
    qed
  qed
qed

lemma wellFormed_runFrom: "wellFormed st \<Longrightarrow> wellFormed (runFrom old st rest)"
  by (induction old st rest rule: runFrom.induct) (simp_all add: wellFormed_update)

lemma wellFormed_run: "wellFormed (run c m p rest)"
  by (simp add: run_def wellFormed_runFrom wellFormed_mount)

lemma boundAs_bindingPhase:
  assumes "distinct (nodes st)"
  shows "boundAs p (bindingPhase c p st)"
proof -
  let ?new = "bindingEffect (Some c) (nodes st) (letters st)
                (direction p) (onDragStart p) (onDragEnd p)"
  let ?old = "activeAfter True (created st)"
  have targets: "map target ?new = nodes st" by (rule bindingEffect_targets)
  have len: "length ?new = length (nodes st)" by (rule bindingEffect_length)
  have dist: "distinct (map target ?new)" using assms by (simp only: targets)
  have active: "activeAfter True (created st @ ?new) =
      filter (\<lambda>d. target d \<notin> set (map target ?new)) ?old @ ?new"
    unfolding activeAfter_append using dist by (rule foldl_create_replace)
  have "map (\<lambda>d. (dragType d, onPress d, onRelease d))
          (filter (\<lambda>d. target d = nodes st ! i) (activeAfter True (created st @ ?new))) =
        [(typeOf (direction p), handler (letters st) i (onDragStart p),
          handler (letters st) i (onDragEnd p))]"
    if i: "i < length (nodes st)" for i
  proof -
    from i have mem: "nodes st ! i \<in> set (map target ?new)" by (simp only: targets) simp
    have "filter (\<lambda>d. target d = nodes st ! i)
            (filter (\<lambda>d. target d \<notin> set (map target ?new)) ?old) = []"
      using mem by (auto simp: filter_empty_conv)
    moreover have "target (?new ! i) = nodes st ! i"
      using i by (simp add: bindingEffect_nth)
    moreover have "filter (\<lambda>d. target d = target (?new ! i)) ?new = [?new ! i]"
      using dist i len by (intro filter_nth_distinct) simp_all
    ultimately have "filter (\<lambda>d. target d = nodes st ! i)
        (activeAfter True (created st @ ?new)) = [?new ! i]"
      by (simp add: active)
    then show ?thesis using i by (simp add: bindingEffect_nth)
  qed
  then show ?thesis by (simp add: boundAs_def bindingPhase_def)
qed

lemma boundAs_letterRefs: "boundAs p (st\<lparr>letterRefs := refs\<rparr>) = boundAs p st"
  by (simp add: boundAs_def)

lemma boundAs_same_deps:
  "\<not> bindingDepsChanged old p \<Longrightarrow> boundAs old st \<Longrightarrow> boundAs p st"
  by (simp add: bindingDepsChanged_def boundAs_def)

lemma boundAs_mount: "boundAs p (mount c m p)"
proof -
  let ?st0 = "initial\<lparr>letterRefs := commitLetterRefs (text' p) m []\<rparr>"
  have w0: "wellFormed ?st0" by (simp add: wellFormed_letterRefs wellFormed_initial)
  then have w1: "wellFormed (bindingPhase c p ?st0)" by (rule wellFormed_bindingPhase)
  show ?thesis
  proof (cases "layoutEffect (Some c) (letterRefs ?st0) (text' p) (spacing p) (verticalCenter p)")
    case None
    have "boundAs p (bindingPhase c p ?st0)"
      by (rule boundAs_bindingPhase) (simp add: initial_def)
    with None show ?thesis by (simp add: mount_def Let_def)
  next
    case (Some positions)
    from w1 have "wellFormed (commitGlyphs (bindingPhase c p ?st0\<lparr>letters := positions\<rparr>))"
      by (rule wellFormed_commitGlyphs)
    then have "distinct (nodes (commitGlyphs (bindingPhase c p ?st0\<lparr>letters := positions\<rparr>)))"
      by (simp add: wellFormed_def)
    then have "boundAs p (bindingPhase c p
        (commitGlyphs (bindingPhase c p ?st0\<lparr>letters := positions\<rparr>)))"
      by (rule boundAs_bindingPhase)
    with Some show ?thesis by (simp add: mount_def Let_def)
  qed
qed

lemma boundAs_update:
  assumes "wellFormed st" and "boundAs old st"
  shows "boundAs p (update c m old p st)"
proof -
  let ?st0 = "st\<lparr>letterRefs := commitLetterRefs (text' p) m (letterRefs st)\<rparr>"
  let ?st1 = "if bindingDepsChanged old p then bindingPhase c p ?st0 else ?st0"
  have w0: "wellFormed ?st0" using assms(1) by (simp add: wellFormed_letterRefs)
  then have w1: "wellFormed ?st1" by (simp add: wellFormed_bindingPhase)
  have b1: "boundAs p ?st1"
  proof (cases "bindingDepsChanged old p")
    case True
    from w0 have "distinct (nodes ?st0)" by (simp add: wellFormed_def)
    then have "boundAs p (bindingPhase c p ?st0)" by (rule boundAs_bindingPhase)
    with True show ?thesis by simp
  next
    case False
    from assms(2) have "boundAs old ?st0" by (simp add: boundAs_letterRefs)
    with False have "boundAs p ?st0" by (rule boundAs_same_deps)
    with False show ?thesis by simp
  qed
  have b2: "boundAs p (bindingPhase c p (commitGlyphs (?st1\<lparr>letters := positions\<rparr>)))"
    for positions
  proof -
    from w1 have "wellFormed (commitGlyphs (?st1\<lparr>letters := positions\<rparr>))"
      by (rule wellFormed_commitGlyphs)
    then have "distinct (nodes (commitGlyphs (?st1\<lparr>letters := positions\<rparr>)))"
      by (simp add: wellFormed_def)
    then show ?thesis by (rule boundAs_bindingPhase)
  qed
  show ?thesis
  proof (cases "layoutDepsChanged old p")
    case False
    with b1 show ?thesis by (simp add: update_def Let_def)
  next
    case True
    show ?thesis
    proof (cases "layoutEffect (Some c) (letterRefs ?st0) (text' p) (spacing p)
                    (verticalCenter p)")
      case None
      with True b1 show ?thesis by (simp add: update_def Let_def)
    next
      case (Some positions)
      with True b2 [of positions] show ?thesis by (simp add: update_def Let_def)
    qed
  qed
qed

lemma boundAs_runFrom:
  "wellFormed st \<Longrightarrow> boundAs old st \<Longrightarrow> boundAs (lastProps old rest) (runFrom old st rest)"
proof (induction old st rest rule: runFrom.induct)
  case (1 old st)
  then show ?case by simp
next
  case (2 old st container measureEl p rest)
  from "2.prems" have "wellFormed (update container measureEl old p st)"
    and "boundAs p (update container measureEl old p st)"
    by (simp_all add: wellFormed_update boundAs_update)
  then show ?case using "2.IH" by simp
qed

lemma boundAs_run: "boundAs (lastProps p rest) (run c m p rest)"
  by (simp add: run_def boundAs_runFrom wellFormed_mount boundAs_mount)

text \<open>What an update adds to the log of create calls: nothing is taken from it.\<close>

lemma created_update:
  "created (update c m old p st) =
     created st @
     (if bindingDepsChanged old p
      then bindingEffect (Some c) (nodes st) (letters st)
             (direction p) (onDragStart p) (onDragEnd p)
      else []) @
     (if layoutDepsChanged old p \<and>
         layoutEffect (Some c) (commitLetterRefs (text' p) m (letterRefs st)) (text' p)
           (spacing p) (verticalCenter p) \<noteq> None
      then bindingEffect (Some c) (nodes (update c m old p st)) (letters (update c m old p st))
             (direction p) (onDragStart p) (onDragEnd p)
      else [])"
proof (cases "layoutEffect (Some c) (commitLetterRefs (text' p) m (letterRefs st)) (text' p)
                (spacing p) (verticalCenter p)")
  case None
  then show ?thesis
    by (simp add: update_def Let_def bindingPhase_def)
next
  case (Some positions)
  then show ?thesis
    by (simp add: update_def Let_def bindingPhase_def commitGlyphs_def)
qed

lemma layoutEffect_length:
  "layoutEffect (Some c) refs txt gap vc = Some positions \<Longrightarrow> length positions = length txt"
proof (cases "refs = []")
  case True
  moreover assume "layoutEffect (Some c) refs txt gap vc = Some positions"
  ultimately show ?thesis by (simp add: layoutEffect_def)
next
  case False
  moreover assume "layoutEffect (Some c) refs txt gap vc = Some positions"
  ultimately show ?thesis by (auto simp: layoutEffect_Some length_glyphs)
qed

lemma layoutEffect_None:
  "layoutEffect (Some c) refs txt gap vc = None \<Longrightarrow> refs = []"
  by (cases "refs = []") (simp_all add: layoutEffect_Some)

lemma length_commitLetterRefs:
  "length (commitLetterRefs txt m refs) = max (length txt) (length refs)"
  by (simp add: commitLetterRefs_def)

lemma inStep_bindingPhase: "inStep p (bindingPhase c q st) = inStep p st"
  by (simp add: inStep_def bindingPhase_def)

lemma inStep_commitGlyphs:
  "length ls = length (text' p) \<Longrightarrow> length (text' p) \<le> length (letterRefs st) \<Longrightarrow>
     inStep p (commitGlyphs (st\<lparr>letters := ls\<rparr>))"
  by (simp add: inStep_def commitGlyphs_def Let_def)

lemma inStep_mount: "inStep p (mount c m p)"
proof -
  let ?st0 = "initial\<lparr>letterRefs := commitLetterRefs (text' p) m []\<rparr>"
  show ?thesis
  proof (cases "layoutEffect (Some c) (letterRefs ?st0) (text' p) (spacing p) (verticalCenter p)")
    case None
    then have "letterRefs ?st0 = []" by (rule layoutEffect_None)
    then have "text' p = []" by (simp add: commitLetterRefs_def)
    with None show ?thesis
      by (simp add: mount_def Let_def inStep_bindingPhase) (simp add: inStep_def initial_def)
  next
    case (Some positions)
    then have len: "length positions = length (text' p)" by (rule layoutEffect_length)
    have "inStep p (commitGlyphs (bindingPhase c p ?st0\<lparr>letters := positions\<rparr>))"
      using len by (rule inStep_commitGlyphs)
         (simp add: bindingPhase_def length_commitLetterRefs)
    with Some show ?thesis by (simp add: mount_def Let_def inStep_bindingPhase)
  qed
qed

lemma inStep_update:
  assumes "inStep old st"
  shows "inStep p (update c m old p st)"
proof -
  let ?st0 = "st\<lparr>letterRefs := commitLetterRefs (text' p) m (letterRefs st)\<rparr>"
  let ?st1 = "if bindingDepsChanged old p then bindingPhase c p ?st0 else ?st0"
  have refs1: "letterRefs ?st1 = commitLetterRefs (text' p) m (letterRefs st)"
    by (simp add: bindingPhase_def)
  have letters1: "letters ?st1 = letters st" and nodes1: "nodes ?st1 = nodes st"
    by (simp_all add: bindingPhase_def)
  have long: "length (text' p) \<le> length (letterRefs ?st1)"
    by (simp add: refs1 length_commitLetterRefs)
  show ?thesis
  proof (cases "layoutDepsChanged old p")
    case False
    then have "text' p = text' old" by (simp add: layoutDepsChanged_def)
    with assms long have "inStep p ?st1"
      unfolding inStep_def letters1 nodes1 by simp
    with False show ?thesis by (simp add: update_def Let_def)
  next
    case True
    show ?thesis
    proof (cases "layoutEffect (Some c) (letterRefs ?st0) (text' p) (spacing p)
                    (verticalCenter p)")
      case None
      then have "letterRefs ?st0 = []" by (rule layoutEffect_None)
      then have "text' p = []" and "letterRefs st = []"
        by (auto simp: commitLetterRefs_def)
      with assms have "letters st = []" and "nodes st = []"
        by (auto simp: inStep_def)
      with \<open>text' p = []\<close> long have "inStep p ?st1"
        unfolding inStep_def letters1 nodes1 by simp
      with True None show ?thesis by (simp add: update_def Let_def)
    next
      case (Some positions)
      then have len: "length positions = length (text' p)" by (rule layoutEffect_length)
      from len long have "inStep p (commitGlyphs (?st1\<lparr>letters := positions\<rparr>))"
        by (rule inStep_commitGlyphs)
      with True Some show ?thesis by (simp add: update_def Let_def inStep_bindingPhase)
    qed
  qed
qed

lemma inStep_runFrom:
  "inStep old st \<Longrightarrow> inStep (lastProps old rest) (runFrom old st rest)"
proof (induction old st rest rule: runFrom.induct)
  case (1 old st)
  then show ?case by simp
next
  case (2 old st container measureEl p rest)
  from "2.prems" have "inStep p (update container measureEl old p st)"
    by (rule inStep_update)
  then show ?case using "2.IH" by simp
qed

lemma inStep_run: "inStep (lastProps p rest) (run c m p rest)"
  by (simp add: run_def inStep_runFrom inStep_mount)

section \<open>Rebinding\<close>

text \<open>
  C3, as the code has it. Whenever the direction, a callback or the layout run changes,
  the binding effect makes one new binding for every glyph node in the document, in index
  order, after all earlier ones; the component releases none, so an element that was bound
  stays bound. With a library that replaces the binding of an element that is bound
  again, in every state that a history of renders reaches there is one glyph node per
  code unit of the current text, each glyph node in the document has exactly one active
  binding, made from the props of the last render and the current \<^verbatim>\<open>letters\<close>, and one
  press or one release on it makes at most one callback call.
\<close>

theorem rebinding_adds_one_binding_per_glyph:
  "(let st = run c m p rest; q = lastProps p rest; active = activeAfter True (created st)
    in length (nodes st) = length (text' q) \<and>
       length (letters st) = length (text' q) \<and>
       (\<forall>i < length (nodes st).
         map (\<lambda>d. (dragType d, onPress d, onRelease d))
           (filter (\<lambda>d. target d = nodes st ! i) active) =
         [(typeOf (direction q), handler (letters st) i (onDragStart q),
           handler (letters st) i (onDragEnd q))] \<and>
         press active (nodes st ! i) = handler (letters st) i (onDragStart q) \<and>
         release active (nodes st ! i) = handler (letters st) i (onDragEnd q) \<and>
         length (press active (nodes st ! i)) \<le> 1 \<and>
         length (release active (nodes st ! i)) \<le> 1)) \<and>
   (let st' = update c' m' old p' s
    in created st' =
         created s @
         (if bindingDepsChanged old p'
          then bindingEffect (Some c') (nodes s) (letters s)
                 (direction p') (onDragStart p') (onDragEnd p')
          else []) @
         (if layoutDepsChanged old p' \<and>
             layoutEffect (Some c') (commitLetterRefs (text' p') m' (letterRefs s)) (text' p')
               (spacing p') (verticalCenter p') \<noteq> None
          then bindingEffect (Some c') (nodes st') (letters st')
                 (direction p') (onDragStart p') (onDragEnd p')
          else []) \<and>
       target ` set (activeAfter r (created s)) \<subseteq> target ` set (activeAfter r (created st'))) \<and>
   map target (bindingEffect (Some c') els ls dir f g) = els"
proof -
  let ?st = "run c m p rest"
  let ?q = "lastProps p rest"
  let ?active = "activeAfter True (created ?st)"
  have bound: "boundAs ?q ?st" by (rule boundAs_run)
  have "inStep ?q ?st" by (rule inStep_run)
  then have count: "length (nodes ?st) = length (text' ?q)"
    and count': "length (letters ?st) = length (text' ?q)"
    by (simp_all add: inStep_def)
  have glyph: "map (\<lambda>d. (dragType d, onPress d, onRelease d))
           (filter (\<lambda>d. target d = nodes ?st ! i) ?active) =
         [(typeOf (direction ?q), handler (letters ?st) i (onDragStart ?q),
           handler (letters ?st) i (onDragEnd ?q))] \<and>
         press ?active (nodes ?st ! i) = handler (letters ?st) i (onDragStart ?q) \<and>
         release ?active (nodes ?st ! i) = handler (letters ?st) i (onDragEnd ?q) \<and>
         length (press ?active (nodes ?st ! i)) \<le> 1 \<and>
         length (release ?active (nodes ?st ! i)) \<le> 1"
    if i: "i < length (nodes ?st)" for i
  proof -
    let ?bs = "filter (\<lambda>d. target d = nodes ?st ! i) ?active"
    from bound i have sig: "map (\<lambda>d. (dragType d, onPress d, onRelease d)) ?bs =
         [(typeOf (direction ?q), handler (letters ?st) i (onDragStart ?q),
           handler (letters ?st) i (onDragEnd ?q))]"
      by (simp add: boundAs_def)
    then obtain d where d: "?bs = [d]"
      and pr: "onPress d = handler (letters ?st) i (onDragStart ?q)"
      and re: "onRelease d = handler (letters ?st) i (onDragEnd ?q)"
      by (cases ?bs) auto
    have p1: "press ?active (nodes ?st ! i) = handler (letters ?st) i (onDragStart ?q)"
      by (simp add: press_def d pr)
    have r1: "release ?active (nodes ?st ! i) = handler (letters ?st) i (onDragEnd ?q)"
      by (simp add: release_def d re)
    have p2: "length (press ?active (nodes ?st ! i)) \<le> 1"
      using handler_length [of "letters ?st" i "onDragStart ?q"] by (simp add: p1)
    have r2: "length (release ?active (nodes ?st ! i)) \<le> 1"
      using handler_length [of "letters ?st" i "onDragEnd ?q"] by (simp add: r1)
    from sig p1 r1 p2 r2 show ?thesis by simp
  qed
  let ?st' = "update c' m' old p' s"
  have log: "created ?st' =
         created s @
         (if bindingDepsChanged old p'
          then bindingEffect (Some c') (nodes s) (letters s)
                 (direction p') (onDragStart p') (onDragEnd p')
          else []) @
         (if layoutDepsChanged old p' \<and>
             layoutEffect (Some c') (commitLetterRefs (text' p') m' (letterRefs s)) (text' p')
               (spacing p') (verticalCenter p') \<noteq> None
          then bindingEffect (Some c') (nodes ?st') (letters ?st')
                 (direction p') (onDragStart p') (onDragEnd p')
          else [])"
    by (rule created_update)
  then obtain new where new: "created ?st' = created s @ new" by blast
  have kept: "target ` set (activeAfter r (created s)) \<subseteq>
              target ` set (activeAfter r (created ?st'))"
    unfolding new activeAfter_append foldl_create_targets by blast
  have targets: "map target (bindingEffect (Some c') els ls dir f g) = els"
    by (rule bindingEffect_targets)
  from count count' glyph log kept targets show ?thesis
    unfolding Let_def by blast
qed

theorem rebinding_adds_one_binding_per_glyph_witness:
  "nodes (run sampleContainer sampleNode sampleProps
      [(sampleContainer, sampleNode, sampleProps\<lparr>direction := DirX\<rparr>)]) = [0, 1] \<and>
   map (\<lambda>d. (dragType d, onPress d, onRelease d))
     (filter (\<lambda>d. target d = 0)
        (activeAfter True (created (run sampleContainer sampleNode sampleProps
           [(sampleContainer, sampleNode, sampleProps\<lparr>direction := DirX\<rparr>)])))) =
     [(TypeX, [Invoke 7 0x41 0], [Invoke 8 0x41 0])] \<and>
   press (activeAfter True (created (run sampleContainer sampleNode sampleProps
      [(sampleContainer, sampleNode, sampleProps\<lparr>direction := DirX\<rparr>)]))) 0 =
     [Invoke 7 0x41 0] \<and>
   created (update sampleContainer sampleNode sampleProps (sampleProps\<lparr>direction := DirX\<rparr>)
      (mount sampleContainer sampleNode sampleProps)) =
     created (mount sampleContainer sampleNode sampleProps) @
     bindingEffect (Some sampleContainer) [0, 1]
       (letters (mount sampleContainer sampleNode sampleProps)) DirX (Some 7) (Some 8)"
proof -
  let ?rest = "[(sampleContainer, sampleNode, sampleProps\<lparr>direction := DirX\<rparr>)]"
  let ?st = "run sampleContainer sampleNode sampleProps ?rest"
  let ?s = "mount sampleContainer sampleNode sampleProps"
  let ?p' = "sampleProps\<lparr>direction := DirX\<rparr>"
  have n: "nodes ?st = [0, 1]" by code_simp
  have q: "lastProps sampleProps ?rest = ?p'" by simp
  have dir: "typeOf (direction ?p') = TypeX" by simp
  have h1: "handler (letters ?st) 0 (onDragStart ?p') = [Invoke 7 0x41 0]" by code_simp
  have h2: "handler (letters ?st) 0 (onDragEnd ?p') = [Invoke 8 0x41 0]" by code_simp
  have deps: "bindingDepsChanged sampleProps ?p'" "\<not> layoutDepsChanged sampleProps ?p'"
    by (simp_all add: bindingDepsChanged_def layoutDepsChanged_def sampleProps_def)
  have ns: "nodes ?s = [0, 1]" by code_simp
  have cb: "onDragStart ?p' = Some 7" "onDragEnd ?p' = Some 8" "direction ?p' = DirX"
    by (simp_all add: sampleProps_def)
  note inst = rebinding_adds_one_binding_per_glyph [of sampleContainer sampleNode sampleProps
      ?rest sampleContainer sampleNode sampleProps ?p' ?s True "[]" "[]" Both None None]
  from inst have glyphs: "\<forall>i < length (nodes ?st).
         map (\<lambda>d. (dragType d, onPress d, onRelease d))
           (filter (\<lambda>d. target d = nodes ?st ! i) (activeAfter True (created ?st))) =
         [(typeOf (direction (lastProps sampleProps ?rest)),
           handler (letters ?st) i (onDragStart (lastProps sampleProps ?rest)),
           handler (letters ?st) i (onDragEnd (lastProps sampleProps ?rest)))] \<and>
         press (activeAfter True (created ?st)) (nodes ?st ! i) =
           handler (letters ?st) i (onDragStart (lastProps sampleProps ?rest))"
    unfolding Let_def by blast
  from glyphs [rule_format, of 0]
  have g0: "map (\<lambda>d. (dragType d, onPress d, onRelease d))
           (filter (\<lambda>d. target d = 0) (activeAfter True (created ?st))) =
         [(TypeX, [Invoke 7 0x41 0], [Invoke 8 0x41 0])] \<and>
         press (activeAfter True (created ?st)) 0 = [Invoke 7 0x41 0]"
    unfolding q dir h1 h2 by (simp add: n)
  from inst have "created (update sampleContainer sampleNode sampleProps ?p' ?s) =
         created ?s @
         (if bindingDepsChanged sampleProps ?p'
          then bindingEffect (Some sampleContainer) (nodes ?s) (letters ?s)
                 (direction ?p') (onDragStart ?p') (onDragEnd ?p')
          else []) @
         (if layoutDepsChanged sampleProps ?p' \<and>
             layoutEffect (Some sampleContainer)
               (commitLetterRefs (text' ?p') sampleNode (letterRefs ?s)) (text' ?p')
               (spacing ?p') (verticalCenter ?p') \<noteq> None
          then bindingEffect (Some sampleContainer)
                 (nodes (update sampleContainer sampleNode sampleProps ?p' ?s))
                 (letters (update sampleContainer sampleNode sampleProps ?p' ?s))
                 (direction ?p') (onDragStart ?p') (onDragEnd ?p')
          else [])"
    unfolding Let_def by blast
  then have log: "created (update sampleContainer sampleNode sampleProps ?p' ?s) =
     created ?s @
     bindingEffect (Some sampleContainer) [0, 1] (letters ?s) DirX (Some 7) (Some 8)"
    unfolding ns cb using deps by simp
  from n g0 log show ?thesis by blast
qed

text \<open>
  The claim as stated fails. After mounting with the text AB, a change of the text to A
  removes glyph node 1 from the document, and the binding made for it at mount is still
  active afterwards, whichever way the library treats an element that is bound again.
  When the text becomes AB again, the key \<^verbatim>\<open>letter-1\<close> gets a new node, and three
  bindings are active: those of the two glyph nodes in the document and that of the
  removed node.
\<close>

theorem earlier_binding_survives_rebinding:
  "created (mount sampleContainer sampleNode sampleProps) ! 1 \<in>
     set (activeAfter True (created
       (update sampleContainer sampleNode sampleProps (sampleProps\<lparr>text' := [0x41]\<rparr>)
          (mount sampleContainer sampleNode sampleProps)))) \<and>
   created (mount sampleContainer sampleNode sampleProps) ! 1 \<in>
     set (activeAfter False (created
       (update sampleContainer sampleNode sampleProps (sampleProps\<lparr>text' := [0x41]\<rparr>)
          (mount sampleContainer sampleNode sampleProps)))) \<and>
   target (created (mount sampleContainer sampleNode sampleProps) ! 1) = 1 \<and>
   nodes (mount sampleContainer sampleNode sampleProps) = [0, 1] \<and>
   nodes (update sampleContainer sampleNode sampleProps (sampleProps\<lparr>text' := [0x41]\<rparr>)
          (mount sampleContainer sampleNode sampleProps)) = [0] \<and>
   nodes (run sampleContainer sampleNode sampleProps
            [(sampleContainer, sampleNode, sampleProps\<lparr>text' := [0x41]\<rparr>),
             (sampleContainer, sampleNode, sampleProps)]) = [0, 2] \<and>
   map target (activeAfter True (created
     (run sampleContainer sampleNode sampleProps
            [(sampleContainer, sampleNode, sampleProps\<lparr>text' := [0x41]\<rparr>),
             (sampleContainer, sampleNode, sampleProps)]))) = [1, 0, 2]"
  by code_simp

end
